theory Spec2Isabelle
  imports Main
begin

section \<open>The shell's variables and the kernel's record of its children\<close>

text \<open>
  \<^verbatim>\<open>main.cpp\<close> is a small interactive shell. This theory embeds its functions as
  functions on an explicit state and proves properties of the job list, of the launcher,
  of the argument parser and of the input loop.
\<close>

definition CHARS_MAX :: nat where
  "CHARS_MAX = 100"

definition ARGS_MAX :: nat where
  "ARGS_MAX = 10"

datatype ProcessType = FORE | BACK

datatype signal = SIGINT | SIGCHLD

definition prmpt :: string where
  "prmpt = ''[mySHELL]''"

definition NUL :: char where
  "NUL = CHR 0x00"

definition NEWLINE :: char where
  "NEWLINE = CHR 0x0A"

text \<open>
  \<open>EOF\<close> is \<open>-1\<close>; stored into the \<open>char c\<close> of \<open>main\<close> it is the byte \<open>0xFF\<close>, and the test
  \<^verbatim>\<open>c != EOF\<close> compares that byte, sign extended, with \<open>-1\<close>.
\<close>

definition EOF_char :: char where
  "EOF_char = CHR 0xFF"

text \<open>
  The state of one process running the program, together with what the kernel knows of
  that process's children.

  Program variables: \<open>my_argv\<close> is the static array of \<open>ARGS_MAX\<close> pointers (\<open>None\<close> is the
  null pointer, \<open>Some b\<close> points to a heap block whose bytes are \<open>b\<close>), \<open>pt\<close> the global mode,
  \<open>bgProcIDs\<close> the \<^verbatim>\<open>std::list<int>\<close>, \<open>input\<close> the bytes of the block of \<open>CHARS_MAX\<close> bytes
  that \<open>main\<close> allocates for the raw line, \<open>out\<close> the bytes written to standard output.

  Kernel side: \<open>running\<close> are the children that have not terminated, \<open>zombies\<close> the
  terminated children whose status has not been collected, \<open>sigchld\<close> tells whether a child
  exit signal is pending (signals do not queue: several exits leave one pending signal),
  \<open>sent\<close> is the log of the signals requested with \<open>kill\<close>, \<open>cwd\<close> the argument of the last
  successful \<open>chdir\<close>.
\<close>

record world =
  my_argv :: "char list option list"
  pt :: ProcessType
  bgProcIDs :: "int list"
  input :: "char list"
  out :: string
  running :: "int list"
  zombies :: "int list"
  sigchld :: bool
  sent :: "(int \<times> signal) list"
  cwd :: string

text \<open>
  C leaves open what a block fresh from \<open>malloc\<close> holds. \<open>malloc mem n\<close> is the block of \<open>n\<close>
  bytes handed out by a call, where \<open>mem\<close> gives, byte by byte, what the memory handed out
  holds; nothing is known of \<open>mem\<close>.
\<close>

definition malloc :: "(nat \<Rightarrow> char) \<Rightarrow> nat \<Rightarrow> char list" where
  "malloc mem n = map mem [0..<n]"

text \<open>
  A state in which the loop of \<open>main\<close> starts, used for concrete runs: the statics are zero,
  the list is empty, there is no child, and the line buffer is as \<open>bzero\<close> leaves it at the
  end of every line.
\<close>

definition init_world :: world where
  "init_world = \<lparr> my_argv = replicate ARGS_MAX None, pt = FORE, bgProcIDs = [],
     input = replicate CHARS_MAX NUL, out = [], running = [], zombies = [],
     sigchld = False, sent = [], cwd = [] \<rparr>"

definition children :: "world \<Rightarrow> int set" where
  "children s = set (running s) \<union> set (zombies s)"

text \<open>
  The memory errors of the program: reading through the null pointer, using the element
  \<open>i\<close> of \<open>my_argv\<close> with \<open>i\<close> outside the array, reading or writing a heap block
  outside its bytes, and using a list node that has been erased.
\<close>

datatype fault = Null_deref | Out_of_bounds nat | Block_overrun | Use_after_free

text \<open>
  How a piece of code ends: it returns to its caller, the process exits with a status, the
  process image is replaced by another program (with its argument vector), the call
  cannot return in the present state of the kernel (a blocking wait on a child that still
  runs), or the code commits a memory error.
\<close>

datatype outcome =
    Returns world
  | Exits int world
  | Replaced string "string list"
  | Blocks
  | Faults fault

subsection \<open>C strings in heap blocks\<close>

text \<open>The C string held by a block: its bytes before the first \<open>NUL\<close>.\<close>

definition c_str :: "char list \<Rightarrow> string" where
  "c_str b = takeWhile (\<lambda>c. c \<noteq> NUL) b"

text \<open>\<open>strlen\<close> scans for the terminator; \<open>None\<close> when the block holds none.\<close>

definition strlen :: "char list \<Rightarrow> nat option" where
  "strlen b = (if NUL \<in> set b then Some (length (c_str b)) else None)"

text \<open>\<open>bzero(b, n)\<close> and \<open>strncpy(b, src, n)\<close>; \<open>None\<close> when \<open>n\<close> exceeds the block.\<close>

definition bzero :: "nat \<Rightarrow> char list \<Rightarrow> char list option" where
  "bzero n b = (if n \<le> length b then Some (replicate n NUL @ drop n b) else None)"

definition strncpy :: "string \<Rightarrow> nat \<Rightarrow> char list \<Rightarrow> char list option" where
  "strncpy src n b =
     (if n \<le> length b then Some (take n (src @ replicate n NUL) @ drop n b) else None)"

text \<open>
  \<open>strncat(b, src, 1)\<close> where the first byte of \<open>src\<close> is \<open>c\<close>: with \<open>n\<close> the length of the
  string in \<open>b\<close>, a \<open>NUL\<close> byte \<open>c\<close> appends nothing and rewrites the terminator; any other
  byte is stored at \<open>n\<close> and a terminator at \<open>n + 1\<close>.
\<close>

definition strncat1 :: "char \<Rightarrow> char list \<Rightarrow> char list option" where
  "strncat1 c b =
     (case strlen b of
        None \<Rightarrow> None
      | Some n \<Rightarrow>
          if c = NUL then Some b
          else if n + 1 < length b then Some (b[n := c, n + 1 := NUL])
          else None)"

text \<open>
  One call of \<open>strtok\<close> with the delimiter \<open>" "\<close> on the text at its saved position: skip
  the delimiters; at the end of the text return the null pointer (\<open>None\<close>); otherwise return
  the token up to the next delimiter, and save the position behind that delimiter.
\<close>

definition strtok :: "string \<Rightarrow> (string \<times> string) option" where
  "strtok txt =
     (let t = dropWhile (\<lambda>c. c = CHR '' '') txt
      in if t = [] then None
         else Some (takeWhile (\<lambda>c. c \<noteq> CHR '' '') t,
                    drop 1 (dropWhile (\<lambda>c. c \<noteq> CHR '' '') t)))"

text \<open>The tokens that the successive calls of \<open>strtok\<close> return, until it returns null.\<close>

function strtok_all :: "string \<Rightarrow> string list" where
  "strtok_all txt =
     (case strtok txt of None \<Rightarrow> [] | Some (tok, rest) \<Rightarrow> tok # strtok_all rest)"
  by pat_completeness auto
termination
proof (relation "measure length")
  show "wf (measure length)" by simp
next
  fix ln :: string and x tok rest
  assume a: "strtok ln = Some x" "(tok, rest) = x"
  let ?t = "dropWhile (\<lambda>c. c = CHR '' '') ln"
  from a have ne: "?t \<noteq> []" and r: "rest = drop 1 (dropWhile (\<lambda>c. c \<noteq> CHR '' '') ?t)"
    by (auto simp: strtok_def Let_def split: if_splits)
  from ne obtain y ys where t: "?t = y # ys" by (cases ?t) auto
  then have "y \<noteq> CHR '' ''" using hd_dropWhile[of "\<lambda>c. c = CHR '' ''" ln] by auto
  with t r have "length rest \<le> length ys"
    using length_dropWhile_le[of "\<lambda>c. c \<noteq> CHR '' ''" ys] by simp
  also have "\<dots> < length ?t" using t by simp
  also have "\<dots> \<le> length ln" by (rule length_dropWhile_le)
  finally show "(rest, ln) \<in> measure length" by simp
qed

subsection \<open>System calls\<close>

text \<open>\<open>printf\<close> appends to the output of the process.\<close>

definition printf :: "string \<Rightarrow> world \<Rightarrow> world" where
  "printf str s = s\<lparr>out := out s @ str\<rparr>"

text \<open>
  \<open>fork\<close>, by the value \<open>pid\<close> it returns in the process at hand. A positive value is the
  identifier of the new child, which starts running. Zero is returned in the child, which
  has no children and no pending signal of its own. A negative value creates nothing.
\<close>

definition sys_fork :: "int \<Rightarrow> world \<Rightarrow> world" where
  "sys_fork pid s =
     (if pid > 0 then s\<lparr>running := running s @ [pid]\<rparr>
      else if pid = 0 then s\<lparr>running := [], zombies := [], sigchld := False\<rparr>
      else s)"

text \<open>A running child terminates: it becomes a zombie and the signal becomes pending.\<close>

definition child_exit :: "int \<Rightarrow> world \<Rightarrow> world" where
  "child_exit pid s =
     s\<lparr>running := removeAll pid (running s), zombies := zombies s @ [pid], sigchld := True\<rparr>"

text \<open>
  The values \<open>wait(NULL)\<close> can return in a state: any terminated child; \<open>-1\<close> when the
  process has no child at all; nothing (the call blocks) while children exist and none
  has terminated.
\<close>

definition sys_wait :: "world \<Rightarrow> int list" where
  "sys_wait s =
     (if zombies s \<noteq> [] then zombies s else if running s = [] then [- 1] else [])"

text \<open>Collecting the status of child \<open>pid\<close> removes it from the kernel's table.\<close>

definition reap :: "int \<Rightarrow> world \<Rightarrow> world" where
  "reap pid s = s\<lparr>zombies := removeAll pid (zombies s)\<rparr>"

text \<open>
  \<open>waitpid(pid, NULL, 0)\<close>: blocks (\<open>None\<close>) while \<open>pid\<close> is a running child; collects it when
  it is a zombie; fails at once, changing nothing, when \<open>pid\<close> is no child of the caller
  (already collected by the handler). The status is discarded. A handler that interrupts
  the call returns into it (the restarting semantics of \<open>signal\<close> on the BSD the program
  is written for).
\<close>

definition sys_waitpid :: "int \<Rightarrow> world \<Rightarrow> world option" where
  "sys_waitpid pid s = (if pid \<in> set (running s) then None else Some (reap pid s))"

text \<open>\<open>kill(pid, sig)\<close> only records the request; delivery and its effect are up to the kernel.\<close>

definition sys_kill :: "int \<Rightarrow> signal \<Rightarrow> world \<Rightarrow> world" where
  "sys_kill pid sg s = s\<lparr>sent := sent s @ [(pid, sg)]\<rparr>"

section \<open>The functions of the shell\<close>

text \<open>\<open>prompt\<close>: \<^verbatim>\<open>printf("%s ", prmpt)\<close>.\<close>

definition prompt :: "world \<Rightarrow> world" where
  "prompt s = printf (prmpt @ '' '') s"

text \<open>
  \<open>child_handler\<close>, given the value \<open>w\<close> that its single call of \<open>wait(NULL)\<close> returns:
  re-installing the handler changes nothing here, the child \<open>w\<close> is collected, and
  \<^verbatim>\<open>bgProcIDs.remove(pid)\<close> erases every element equal to \<open>w\<close>.
\<close>

definition child_handler :: "int \<Rightarrow> world \<Rightarrow> world" where
  "child_handler w s = (let s1 = reap w s in s1\<lparr>bgProcIDs := removeAll w (bgProcIDs s1)\<rparr>)"

subsection \<open>Asynchronous events\<close>

text \<open>
  What happens asynchronously to the program text: \<open>Child_exit pid\<close>, a running child
  terminates; \<open>Sigchld w\<close>, the pending signal is delivered, \<open>child_handler\<close> runs and its
  \<open>wait\<close> returns \<open>w\<close>.
\<close>

datatype async = Child_exit int | Sigchld int

fun async_enabled :: "async \<Rightarrow> world \<Rightarrow> bool" where
  "async_enabled (Child_exit pid) s = (pid \<in> set (running s))"
| "async_enabled (Sigchld w) s = (sigchld s \<and> w \<in> set (sys_wait s))"

fun async_apply :: "async \<Rightarrow> world \<Rightarrow> world" where
  "async_apply (Child_exit pid) s = child_exit pid s"
| "async_apply (Sigchld w) s = child_handler w (s\<lparr>sigchld := False\<rparr>)"

text \<open>
  \<open>usleep\<close> changes nothing by itself; \<open>evs\<close> are the asynchronous events that fall into the
  sleep.
\<close>

definition usleep :: "nat \<Rightarrow> async list \<Rightarrow> world \<Rightarrow> world" where
  "usleep n evs s = fold async_apply evs s"

text \<open>The values that the handlers among the events pass to \<^verbatim>\<open>bgProcIDs.remove\<close>.\<close>

fun erased :: "async list \<Rightarrow> int list" where
  "erased [] = []"
| "erased (Sigchld w # evs) = w # erased evs"
| "erased (Child_exit pid # evs) = erased evs"

subsection \<open>getArgs\<close>

text \<open>
  The four statements that fill \<open>my_argv[argNum]\<close>: a null element gets a fresh block of
  \<open>sz\<close> bytes, another one has its string zeroed; then \<open>n\<close> bytes of the token are copied
  in, without a terminator, and \<^verbatim>\<open>strncat(..., "\0", 1)\<close>, which appends nothing, looks for
  the terminator of what is there. The element must lie in the array and the bytes in the
  block. \<open>mem i\<close> is what the memory handed out for element \<open>i\<close> holds (a call of \<open>getArgs\<close>
  fills an element at most once).
\<close>

definition fill_arg ::
  "(nat \<Rightarrow> nat \<Rightarrow> char) \<Rightarrow> nat \<Rightarrow> nat \<Rightarrow> string \<Rightarrow> nat \<Rightarrow> world \<Rightarrow> fault + world" where
  "fill_arg mem argNum sz tok n s =
     (if argNum \<ge> length (my_argv s) then Inl (Out_of_bounds argNum)
      else
        (case (case my_argv s ! argNum of
                 None \<Rightarrow> Some (malloc (mem argNum) sz)
               | Some b \<Rightarrow> (case strlen b of None \<Rightarrow> None | Some k \<Rightarrow> bzero k b)) of
           None \<Rightarrow> Inl Block_overrun
         | Some b0 \<Rightarrow>
             (case strncpy tok n b0 of
                None \<Rightarrow> Inl Block_overrun
              | Some b1 \<Rightarrow>
                  (case strncat1 NUL b1 of
                     None \<Rightarrow> Inl Block_overrun
                   | Some b2 \<Rightarrow> Inr (s\<lparr>my_argv := (my_argv s)[argNum := Some b2]\<rparr>)))))"

text \<open>
  The loop of \<open>getArgs\<close>. Its first argument is the token pointer \<open>tok\<close> together with the
  tokens that the later calls of \<open>strtok\<close> will return: the empty list is \<open>tok == NULL\<close>.
  The loop condition is \<^verbatim>\<open>tok != NULL || argNum >= ARGS_MAX\<close>; the body starts by reading
  \<^verbatim>\<open>tok[strlen(tok)-1]\<close>.
\<close>

fun getArgs_loop ::
  "(nat \<Rightarrow> nat \<Rightarrow> char) \<Rightarrow> string list \<Rightarrow> nat \<Rightarrow> world \<Rightarrow> fault + world" where
  "getArgs_loop mem [] argNum s =
     (if argNum \<ge> ARGS_MAX then Inl Null_deref else Inr (s\<lparr>pt := FORE\<rparr>))"
| "getArgs_loop mem (tok # toks) argNum s =
     (if tok = [] then Inl Block_overrun
      else if last tok \<noteq> CHR ''&'' then
        (case fill_arg mem argNum (length tok + 1) tok (length tok) s of
           Inl f \<Rightarrow> Inl f
         | Inr s1 \<Rightarrow> getArgs_loop mem toks (argNum + 1) s1)
      else if length tok > 1 then
        (case fill_arg mem argNum (length tok) tok (length tok - 1) s of
           Inl f \<Rightarrow> Inl f
         | Inr s1 \<Rightarrow> Inr (s1\<lparr>pt := BACK\<rparr>))
      else Inr (s\<lparr>pt := BACK\<rparr>))"

text \<open>
  \<open>getArgs\<close> on the C string \<open>line\<close>. The terminators that \<open>strtok\<close> writes into the line
  are not kept: the caller zeroes the whole line buffer before it is read again.
\<close>

definition getArgs :: "(nat \<Rightarrow> nat \<Rightarrow> char) \<Rightarrow> string \<Rightarrow> world \<Rightarrow> fault + world" where
  "getArgs mem line s = getArgs_loop mem (strtok_all line) 0 s"

text \<open>The argument vector that \<open>execvp\<close> reads: the strings before the first null element.\<close>

fun argv_of :: "char list option list \<Rightarrow> string list" where
  "argv_of [] = []"
| "argv_of (None # av) = []"
| "argv_of (Some b # av) = c_str b # argv_of av"

subsection \<open>execute, resetArgs, changeDir, killBgProcs\<close>

text \<open>
  \<open>execute\<close>, from the point where \<open>fork\<close> has returned \<open>pid\<close> in the process at hand.
  \<open>exec_ok\<close> tells whether \<open>execvp\<close> can load the program (it is consulted in the child only).
\<close>

definition execute :: "int \<Rightarrow> bool \<Rightarrow> string \<Rightarrow> world \<Rightarrow> outcome" where
  "execute pid exec_ok c s =
     (if pid = 0 then
        (if exec_ok then Replaced c (argv_of (my_argv s))
         else Exits 1 (printf (c @ '': command not found'' @ [NEWLINE]) s))
      else if pid > 0 then
        (if pt s = FORE then
           (case sys_waitpid pid s of None \<Rightarrow> Blocks | Some s' \<Rightarrow> Returns s')
         else if pt s = BACK then Returns (s\<lparr>bgProcIDs := bgProcIDs s @ [pid]\<rparr>)
         else Returns s)
      else Returns s)"

text \<open>
  \<open>resetArgs\<close>: the loop runs while \<open>my_argv[i]\<close> is not null, so it reads the element
  behind the array when all \<open>ARGS_MAX\<close> elements are set. Each turn zeroes the string and
  its terminator and nulls the element.
\<close>

function resetArgs_loop :: "nat \<Rightarrow> world \<Rightarrow> fault + world" where
  "resetArgs_loop i s =
     (if i \<ge> length (my_argv s) then Inl (Out_of_bounds i)
      else
        (case my_argv s ! i of
           None \<Rightarrow> Inr s
         | Some b \<Rightarrow>
             (case strlen b of
                None \<Rightarrow> Inl Block_overrun
              | Some k \<Rightarrow>
                  (case bzero (k + 1) b of
                     None \<Rightarrow> Inl Block_overrun
                   | Some b' \<Rightarrow> resetArgs_loop (i + 1) (s\<lparr>my_argv := (my_argv s)[i := None]\<rparr>)))))"
  by pat_completeness auto
termination
  by (relation "measure (\<lambda>(i, s). length (my_argv s) - i)") auto

definition resetArgs :: "world \<Rightarrow> fault + world" where
  "resetArgs s = resetArgs_loop 0 s"

text \<open>
  \<open>changeDir\<close>; \<open>ok\<close> tells whether \<open>chdir\<close> succeeds. \<open>my_argv\<close> always has its \<open>ARGS_MAX\<close>
  elements, so element \<open>1\<close> exists.
\<close>

definition changeDir :: "bool \<Rightarrow> world \<Rightarrow> world" where
  "changeDir ok s =
     (case my_argv s ! 1 of
        None \<Rightarrow> s
      | Some path \<Rightarrow>
          if ok then s\<lparr>cwd := c_str path\<rparr>
          else printf (''cd: '' @ c_str path @ '': No such file or directory'' @ [NEWLINE]) s)"

text \<open>
  \<open>killBgProcs\<close>. The loop walks the list itself, not a copy. Its second argument is the
  iterator \<open>it\<close>, given by the nodes from \<open>it\<close> to \<open>end()\<close> (the empty list is \<open>it == end()\<close>);
  the first one lists, turn by turn, the asynchronous events that fall into the sleep of
  that turn (none once the list is used up). A turn sends \<open>SIGINT\<close> to the element and
  sleeps. A handler that runs meanwhile erases from the list every node equal to the value
  its \<open>wait\<close> returned: the nodes behind \<open>it\<close> are gone for the rest of the walk, and when
  the node under \<open>it\<close> is among them, \<^verbatim>\<open>++it\<close> uses an erased node. After the loop the list
  is cleared.
\<close>

fun kill_loop :: "async list list \<Rightarrow> int list \<Rightarrow> world \<Rightarrow> outcome" where
  "kill_loop sched [] s = Returns s"
| "kill_loop [] (pid # it) s = kill_loop [] it (usleep 1000 [] (sys_kill pid SIGINT s))"
| "kill_loop (evs # sched) (pid # it) s =
     (if pid \<in> set (erased evs) then Faults Use_after_free
      else kill_loop sched (filter (\<lambda>p. p \<notin> set (erased evs)) it)
             (usleep 1000 evs (sys_kill pid SIGINT s)))"

definition killBgProcs :: "async list list \<Rightarrow> world \<Rightarrow> outcome" where
  "killBgProcs sched s =
     (case kill_loop sched (bgProcIDs s) s of
        Returns s' \<Rightarrow> Returns (s'\<lparr>bgProcIDs := []\<rparr>)
      | other \<Rightarrow> other)"

section \<open>Interleaving of the main loop, the children and the signal handler\<close>

text \<open>
  The events of a run, at the granularity of the statements of \<open>execute\<close>:
  \<^item> \<open>Fork m pid\<close>: the main loop has parsed a line with mode \<open>m\<close> (so \<open>pt = m\<close>), has called
    \<open>execute\<close>, and \<open>fork\<close> has returned \<open>pid > 0\<close> in the parent. The kernel never hands out
    the identifier of a child that has not been collected yet.
  \<^item> \<open>Parent\<close>: the parent's code after \<open>fork\<close> (the wait or the \<open>push_back\<close>) runs and
    \<open>execute\<close> returns. It cannot happen while \<open>waitpid\<close> blocks.
  \<^item> \<open>Async a\<close>: an asynchronous event, possible between any two statements.
  A configuration pairs the state with the local variable \<open>pid\<close> of a call of \<open>execute\<close>
  that is between its \<open>fork\<close> and its parent code (\<open>None\<close> outside such a call).
\<close>

datatype event = Fork ProcessType int | Parent | Async async

type_synonym config = "world \<times> int option"

fun step :: "event \<Rightarrow> config \<Rightarrow> config option" where
  "step (Fork m pid) (s, None) =
     (if pid > 0 \<and> pid \<notin> children s then Some (sys_fork pid (s\<lparr>pt := m\<rparr>), Some pid)
      else None)"
| "step Parent (s, Some pid) =
     (case execute pid False [] s of Returns s' \<Rightarrow> Some (s', None) | _ \<Rightarrow> None)"
| "step (Async a) (s, l) = (if async_enabled a s then Some (async_apply a s, l) else None)"
| "step _ _ = None"

fun run :: "event list \<Rightarrow> config \<Rightarrow> config option" where
  "run [] c = Some c"
| "run (e # es) c = (case step e c of None \<Rightarrow> None | Some c' \<Rightarrow> run es c')"

text \<open>
  The handles a run leaves outstanding, read off the events alone: a background \<open>fork\<close>
  adds its child, a handler whose \<open>wait\<close> returned \<open>w\<close> takes \<open>w\<close> away.
\<close>

fun outstanding :: "event list \<Rightarrow> int set \<Rightarrow> int set" where
  "outstanding [] S = S"
| "outstanding (Fork BACK pid # es) S = outstanding es (insert pid S)"
| "outstanding (Async (Sigchld w) # es) S = outstanding es (S - {w})"
| "outstanding (e # es) S = outstanding es S"

text \<open>
  Runs in which every background spawn is one step: the \<open>push_back\<close> follows its \<open>fork\<close>
  with no other event in between.
\<close>

fun bg_atomic :: "event list \<Rightarrow> bool" where
  "bg_atomic [] = True"
| "bg_atomic (Fork BACK pid # es) = (case es of Parent # es' \<Rightarrow> bg_atomic es' | _ \<Rightarrow> False)"
| "bg_atomic (Fork FORE pid # es) = bg_atomic es"
| "bg_atomic (Parent # es) = bg_atomic es"
| "bg_atomic (Async a # es) = bg_atomic es"

text \<open>
  The invariant of the job list against a set \<open>S\<close> of outstanding handles: no duplicates,
  the elements are exactly \<open>S\<close>, every element is a child the kernel still knows, and a
  foreground child being waited for is not among them.
\<close>

definition job_inv :: "world \<Rightarrow> int option \<Rightarrow> int set \<Rightarrow> bool" where
  "job_inv s l S =
     (distinct (bgProcIDs s) \<and> set (bgProcIDs s) = S \<and> S \<subseteq> children s
      \<and> (case l of None \<Rightarrow> True | Some pid \<Rightarrow> pt s = FORE \<and> pid \<notin> S))"

section \<open>The loop of main\<close>

text \<open>
  What the system answers during one turn of the loop: the value \<open>fork\<close> returns, whether
  \<open>execvp\<close> and \<open>chdir\<close> succeed, the asynchronous events that fall between the return
  of \<open>fork\<close> and the parent's code of \<open>execute\<close>, those that fall into the sleeps of
  \<open>killBgProcs\<close>, and what the memory handed out by \<open>malloc\<close> holds.
\<close>

record resp =
  fork_ret :: int
  exec_ok :: bool
  chdir_ok :: bool
  during :: "async list"
  sleeps :: "async list list"
  heap :: "nat \<Rightarrow> nat \<Rightarrow> char"

text \<open>\<open>execute\<close> as \<open>main\<close> calls it: the \<open>fork\<close>, what happens meanwhile, then the code above.\<close>

definition launch :: "resp \<Rightarrow> string \<Rightarrow> world \<Rightarrow> outcome" where
  "launch r c s =
     execute (fork_ret r) (exec_ok r) c (fold async_apply (during r) (sys_fork (fork_ret r) s))"

text \<open>
  The chain of comparisons on \<open>cmd\<close>. \<open>cmd\<close> is zeroed at the end of every command line
  and is taken to hold zero bytes at the first one too; the string of \<open>my_argv[0]\<close> is copied
  into it, so \<open>cmd\<close> holds the same string.
\<close>

definition dispatch :: "resp \<Rightarrow> string \<Rightarrow> world \<Rightarrow> outcome" where
  "dispatch r c s =
     (if c = ''cd'' then Returns (changeDir (chdir_ok r) s)
      else if c = ''killbg'' then killBgProcs (sleeps r) s
      else if c = ''exit'' then Exits 0 s
      else launch r c s)"

text \<open>The case \<^verbatim>\<open>'\n'\<close> of the switch, up to \<^verbatim>\<open>bzero(input, CHARS_MAX)\<close>.\<close>

definition main_newline :: "resp \<Rightarrow> world \<Rightarrow> outcome" where
  "main_newline r s =
     (case input s of
        [] \<Rightarrow> Faults Block_overrun
      | c0 # _ \<Rightarrow>
          if c0 = NUL then Returns ((prompt s)\<lparr>input := replicate CHARS_MAX NUL\<rparr>)
          else
            (case strlen (input s) of
               None \<Rightarrow> Faults Block_overrun
             | Some _ \<Rightarrow>
                 (case getArgs (heap r) (c_str (input s)) s of
                    Inl f \<Rightarrow> Faults f
                  | Inr s1 \<Rightarrow>
                      (case my_argv s1 ! 0 of
                         None \<Rightarrow> Faults Null_deref
                       | Some b \<Rightarrow>
                           (case dispatch r (c_str b) s1 of
                              Returns s2 \<Rightarrow>
                                (case resetArgs s2 of
                                   Inl f \<Rightarrow> Faults f
                                 | Inr s3 \<Rightarrow>
                                     Returns ((prompt s3)\<lparr>input := replicate CHARS_MAX NUL\<rparr>))
                            | other \<Rightarrow> other)))))"

text \<open>One turn of the loop after \<open>getchar\<close> has returned \<open>c\<close>.\<close>

definition main_char :: "resp \<Rightarrow> char \<Rightarrow> world \<Rightarrow> outcome" where
  "main_char r c s =
     (if c = NEWLINE then main_newline r s
      else
        (case strncat1 c (input s) of
           None \<Rightarrow> Faults Block_overrun
         | Some b \<Rightarrow> Returns (s\<lparr>input := b\<rparr>)))"

text \<open>
  The loop on the characters read, each with the answers of the system during its turn.
  The end of the input is read as \<open>EOF_char\<close>; after the turn of that byte the loop ends,
  \<open>main\<close> prints a newline and returns \<open>0\<close>. When the characters given are used up and the
  loop has not ended, the result is the state in which \<open>getchar\<close> waits.
\<close>

fun main_loop :: "(resp \<times> char) list \<Rightarrow> world \<Rightarrow> outcome" where
  "main_loop [] s = Returns s"
| "main_loop ((r, c) # rest) s =
     (case main_char r c s of
        Returns s' \<Rightarrow> if c = EOF_char then Exits 0 (printf [NEWLINE] s') else main_loop rest s'
      | other \<Rightarrow> other)"

text \<open>\<open>main\<close>: the mode is set, \<^verbatim>\<open>execute("clear")\<close>, the first prompt, then the loop.\<close>

definition main :: "resp \<Rightarrow> (resp \<times> char) list \<Rightarrow> outcome" where
  "main r0 chars =
     (case launch r0 ''clear'' (init_world\<lparr>pt := FORE\<rparr>) of
        Returns s \<Rightarrow> main_loop chars (prompt s)
      | other \<Rightarrow> other)"

text \<open>A typed line: its characters, each with the same answers of the system.\<close>

definition typed :: "resp \<Rightarrow> string \<Rightarrow> (resp \<times> char) list" where
  "typed r txt = map (Pair r) txt"

section \<open>Notions used to state the properties\<close>

text \<open>
  What \<open>main\<close> and \<open>execute\<close> take from the parser: the command (the string of
  \<open>my_argv[0]\<close>, copied into \<open>cmd\<close>), the argument vector and the mode.
\<close>

definition command_line :: "world \<Rightarrow> (string \<times> string list \<times> ProcessType) option" where
  "command_line s =
     (case my_argv s ! 0 of
        None \<Rightarrow> None
      | Some b \<Rightarrow> Some (c_str b, argv_of (my_argv s), pt s))"

text \<open>
  The array \<open>my_argv\<close> once the strings \<open>xs\<close> have been stored from element \<open>0\<close> on, each
  in a block of its own size, the other elements being null.
\<close>

definition filled :: "string list \<Rightarrow> char list option list" where
  "filled xs = map (\<lambda>x. Some (x @ [NUL])) xs @ replicate (ARGS_MAX - length xs) None"

text \<open>
  The memory handed out for the elements \<open>d\<close>, \<open>d + 1\<close>, ... holds \<open>NUL\<close> right behind the
  bytes copied from the strings \<open>xs\<close>: the one byte of each block that the code does not
  write.
\<close>

fun terminated :: "(nat \<Rightarrow> nat \<Rightarrow> char) \<Rightarrow> nat \<Rightarrow> string list \<Rightarrow> bool" where
  "terminated mem d [] = True"
| "terminated mem d (x # xs) = (mem d (length x) = NUL \<and> terminated mem (Suc d) xs)"

text \<open>Memory that holds \<open>NUL\<close> bytes, and memory that holds none.\<close>

definition zeroed :: "nat \<Rightarrow> nat \<Rightarrow> char" where
  "zeroed i k = NUL"

definition dirty :: "nat \<Rightarrow> nat \<Rightarrow> char" where
  "dirty i k = CHR ''x''"

text \<open>A token that takes the first branch of the loop body of \<open>getArgs\<close>.\<close>

definition plain :: "string \<Rightarrow> bool" where
  "plain tok = (tok \<noteq> [] \<and> last tok \<noteq> CHR ''&'')"

declare strtok_all.simps [simp del]

declare resetArgs_loop.simps [simp del]

section \<open>Properties of the job list\<close>

lemma run_append:
  "run (xs @ ys) c = (case run xs c of None \<Rightarrow> None | Some c' \<Rightarrow> run ys c')"
  by (induction xs arbitrary: c) (auto split: option.splits)

lemma step_bg_spawn:
  assumes "step (Fork BACK p) (s, l) = Some c1" and "step Parent c1 = Some (s', l')"
    and "job_inv s l S"
  shows "job_inv s' l' (insert p S)"
proof -
  from assms(1) have l: "l = None" by (cases l) auto
  from assms(1) l have p: "p > 0" "p \<notin> children s"
    and c1: "c1 = (sys_fork p (s\<lparr>pt := BACK\<rparr>), Some p)"
    by (auto split: if_splits)
  from assms(2) c1 p
  have s': "s' = (sys_fork p (s\<lparr>pt := BACK\<rparr>))\<lparr>bgProcIDs := bgProcIDs s @ [p]\<rparr>"
    and l': "l' = None"
    by (auto simp: execute_def sys_fork_def)
  from assms(3) p show ?thesis unfolding s' l' job_inv_def
    by (auto simp: sys_fork_def children_def)
qed

lemma step_fg_fork:
  assumes "step (Fork FORE p) (s, l) = Some (s', l')" and "job_inv s l S"
  shows "job_inv s' l' S"
proof -
  from assms(1) have l: "l = None" by (cases l) auto
  from assms(1) l have p: "p > 0" "p \<notin> children s"
    and c1: "s' = sys_fork p (s\<lparr>pt := FORE\<rparr>)" "l' = Some p"
    by (auto split: if_splits)
  from assms(2) p show ?thesis unfolding c1 job_inv_def
    by (auto simp: sys_fork_def children_def)
qed

lemma step_parent:
  assumes "step Parent (s, l) = Some (s', l')" and "job_inv s l S"
  shows "job_inv s' l' S"
proof -
  from assms(1) obtain p where l: "l = Some p" by (cases l) auto
  from assms(2) l have fg: "pt s = FORE" "p \<notin> S" by (auto simp: job_inv_def)
  from assms(1) l fg have c1: "s' = reap p s \<or> s' = s" "l' = None"
    by (auto simp: execute_def sys_waitpid_def split: if_splits option.splits)
  from assms(2) fg c1 show ?thesis unfolding job_inv_def
    by (auto simp: reap_def children_def)
qed

lemma step_child_exit:
  assumes "step (Async (Child_exit p)) (s, l) = Some (s', l')" and "job_inv s l S"
  shows "job_inv s' l' S"
proof -
  from assms(1) have c1: "p \<in> set (running s)" "s' = child_exit p s" "l' = l"
    by (auto split: if_splits)
  from assms(2) c1(1) show ?thesis unfolding c1 job_inv_def
    by (auto simp: child_exit_def children_def split: option.splits)
qed

lemma step_sigchld:
  assumes "step (Async (Sigchld w)) (s, l) = Some (s', l')" and "job_inv s l S"
  shows "job_inv s' l' (S - {w})"
proof -
  from assms(1) have c1: "s' = child_handler w (s\<lparr>sigchld := False\<rparr>)" "l' = l"
    by (auto split: if_splits)
  from assms(2) show ?thesis unfolding c1 job_inv_def
    by (auto simp: child_handler_def reap_def children_def Let_def distinct_removeAll
        split: option.splits)
qed

lemma run_preserves_job_inv:
  "run evs (s, l) = Some (s', l') \<Longrightarrow> bg_atomic evs \<Longrightarrow> job_inv s l S
   \<Longrightarrow> job_inv s' l' (outstanding evs S)"
proof (induction evs arbitrary: s l S rule: bg_atomic.induct)
  case 1
  then show ?case by simp
next
  case (2 pid es)
  from "2.prems"(2) obtain es' where es: "es = Parent # es'" and at: "bg_atomic es'"
    by (auto split: list.splits event.splits)
  from "2.prems"(1) es obtain c1 s2 l2 where
    a: "step (Fork BACK pid) (s, l) = Some c1" and b: "step Parent c1 = Some (s2, l2)"
    and c: "run es' (s2, l2) = Some (s', l')"
    by (auto split: option.splits)
  from step_bg_spawn[OF a b "2.prems"(3)] have "job_inv s2 l2 (insert pid S)" .
  from "2.IH"[OF es refl c at this] show ?case using es by simp
next
  case (3 va es)
  from "3.prems"(1) obtain s2 l2 where
    a: "step (Fork FORE va) (s, l) = Some (s2, l2)" and c: "run es (s2, l2) = Some (s', l')"
    by (auto split: option.splits)
  from "3.IH"[OF c _ step_fg_fork[OF a "3.prems"(3)]] "3.prems"(2) show ?case by simp
next
  case (4 es)
  from "4.prems"(1) obtain s2 l2 where
    a: "step Parent (s, l) = Some (s2, l2)" and c: "run es (s2, l2) = Some (s', l')"
    by (auto split: option.splits)
  from "4.IH"[OF c _ step_parent[OF a "4.prems"(3)]] "4.prems"(2) show ?case by simp
next
  case (5 v es)
  from "5.prems"(1) obtain s2 l2 where
    a: "step (Async v) (s, l) = Some (s2, l2)" and c: "run es (s2, l2) = Some (s', l')"
    by (auto split: option.splits)
  show ?case
  proof (cases v)
    case (Child_exit p)
    from "5.IH"[OF c _ step_child_exit[OF a[unfolded Child_exit] "5.prems"(3)]]
      "5.prems"(2) Child_exit
    show ?thesis by simp
  next
    case (Sigchld w)
    from "5.IH"[OF c _ step_sigchld[OF a[unfolded Sigchld] "5.prems"(3)]]
      "5.prems"(2) Sigchld
    show ?thesis by simp
  qed
qed

text \<open>
  Where every background spawn is one step (its \<open>push_back\<close> follows its \<open>fork\<close> with no
  event in between), the job list has no duplicates, its elements are exactly the handles
  spawned in background mode for which no handler has yet processed a termination, and
  each of them is a child the kernel has not released.
\<close>

lemma job_list_exact_on_atomic_runs:
  assumes "run evs (init_world, None) = Some (s, l)" and "bg_atomic evs"
  shows "distinct (bgProcIDs s) \<and> set (bgProcIDs s) = outstanding evs {}
         \<and> set (bgProcIDs s) \<subseteq> children s"
proof -
  have "job_inv init_world None {}" by (simp add: job_inv_def init_world_def)
  from run_preserves_job_inv[OF assms this] show ?thesis by (simp add: job_inv_def)
qed

text \<open>
  Claim C1 does not hold of the code. \<open>execute\<close> does not keep the handler from running
  between its \<open>fork\<close> and its \<open>push_back\<close>. Job \<open>5\<close> is spawned in the background and keeps
  running; job \<open>7\<close> is spawned in the background and exits at once: the handler runs before
  \<open>push_back(7)\<close>, its \<open>wait\<close> returns \<open>7\<close>, nothing is erased, and \<open>7\<close> is then registered.
  Afterwards the list is \<open>[5, 7]\<close>, while the only handle spawned and not yet reaped is \<open>5\<close>
  and the only child left is \<open>5\<close>: the list holds a stale entry.
\<close>

theorem job_list_keeps_reaped_handle:
  "run [Fork BACK 5, Parent, Fork BACK 7, Async (Child_exit 7), Async (Sigchld 7), Parent]
       (init_world, None)
     = Some (init_world\<lparr>pt := BACK, bgProcIDs := [5, 7], running := [5]\<rparr>, None)
   \<and> outstanding [Fork BACK 5, Parent, Fork BACK 7, Async (Child_exit 7), Async (Sigchld 7),
        Parent] {} = {5}
   \<and> children (init_world\<lparr>pt := BACK, bgProcIDs := [5, 7], running := [5]\<rparr>) = {5}
   \<and> set (bgProcIDs (init_world\<lparr>pt := BACK, bgProcIDs := [5, 7], running := [5]\<rparr>)) \<noteq> {5}"
  by (simp add: init_world_def sys_fork_def children_def execute_def
      child_exit_def sys_wait_def child_handler_def reap_def)

text \<open>
  Claim C2, as the code has it. One invocation of \<open>child_handler\<close> calls \<open>wait\<close> once. When
  at least one child is reapable, the value \<open>w\<close> that \<open>wait\<close> returns is one of the
  reapable children; the handler collects that child and erases that handle from the job
  list, and nothing else: every other reapable child stays a zombie, every other handle
  stays in the list, and the running children are untouched.
\<close>

theorem child_handler_reaps_one:
  assumes "w \<in> set (sys_wait s)" and "zombies s \<noteq> []"
  shows "w \<in> set (zombies s)
     \<and> zombies (child_handler w s) = removeAll w (zombies s)
     \<and> bgProcIDs (child_handler w s) = removeAll w (bgProcIDs s)
     \<and> set (zombies (child_handler w s)) = set (zombies s) - {w}
     \<and> set (bgProcIDs (child_handler w s)) = set (bgProcIDs s) - {w}
     \<and> running (child_handler w s) = running s"
  using assms by (auto simp: sys_wait_def child_handler_def reap_def Let_def)

theorem child_handler_reaps_one_witness:
  "(2::int) \<in> set (sys_wait (init_world\<lparr>bgProcIDs := [1, 2], zombies := [1, 2]\<rparr>))
   \<and> zombies (init_world\<lparr>bgProcIDs := [1, 2], zombies := [1, 2]\<rparr>) \<noteq> []
   \<and> zombies (child_handler 2 (init_world\<lparr>bgProcIDs := [1, 2], zombies := [1, 2]\<rparr>)) = [1]
   \<and> bgProcIDs (child_handler 2 (init_world\<lparr>bgProcIDs := [1, 2], zombies := [1, 2]\<rparr>)) = [1]"
proof -
  have a: "(2::int) \<in> set (sys_wait (init_world\<lparr>bgProcIDs := [1, 2], zombies := [1, 2]\<rparr>))"
    by (simp add: sys_wait_def)
  have b: "zombies (init_world\<lparr>bgProcIDs := [1, 2], zombies := [1, 2]\<rparr>) \<noteq> []"
    by simp
  from child_handler_reaps_one[OF a b] a b show ?thesis by simp
qed

text \<open>
  The claim as the specification words it fails. Three background children are spawned and
  all three exit before the signal is delivered; the signal is delivered once and the
  handler's \<open>wait\<close> returns child \<open>1\<close>. Afterwards the handles \<open>2\<close> and \<open>3\<close> are still in the
  list, both children are still zombies, and no signal is pending, so the handler is not
  invoked again until another child exits.
\<close>

theorem child_handler_leaves_two_of_three:
  "run [Fork BACK 1, Parent, Fork BACK 2, Parent, Fork BACK 3, Parent,
        Async (Child_exit 1), Async (Child_exit 2), Async (Child_exit 3), Async (Sigchld 1)]
       (init_world, None)
     = Some (init_world\<lparr>pt := BACK, bgProcIDs := [2, 3], zombies := [2, 3]\<rparr>, None)
   \<and> step (Async (Sigchld 2))
        (init_world\<lparr>pt := BACK, bgProcIDs := [2, 3], zombies := [2, 3]\<rparr>, None) = None
   \<and> step (Async (Sigchld 3))
        (init_world\<lparr>pt := BACK, bgProcIDs := [2, 3], zombies := [2, 3]\<rparr>, None) = None"
  by (simp add: init_world_def sys_fork_def children_def execute_def
      child_exit_def sys_wait_def child_handler_def reap_def)

lemma fold_async_sent: "sent (fold async_apply evs s) = sent s"
proof (induction evs arbitrary: s)
  case Nil
  then show ?case by simp
next
  case (Cons a evs)
  have "sent (async_apply a s) = sent s"
    by (cases a) (simp_all add: child_exit_def child_handler_def reap_def Let_def)
  with Cons show ?case by simp
qed

text \<open>
  While no handler runs during its sleeps, \<open>killBgProcs\<close> sends one \<open>SIGINT\<close> request for
  each handle, in list order, returns with an empty list and leaves the kernel's record of
  the children as it was.
\<close>

lemma kill_loop_undisturbed:
  "\<exists>s'. kill_loop [] it s = Returns s' \<and> sent s' = sent s @ map (\<lambda>p. (p, SIGINT)) it
     \<and> running s' = running s \<and> zombies s' = zombies s"
proof (induction it arbitrary: s)
  case Nil
  then show ?case by simp
next
  case (Cons pid it)
  let ?s1 = "usleep 1000 [] (sys_kill pid SIGINT s)"
  from Cons[of ?s1] obtain s' where "kill_loop [] it ?s1 = Returns s'"
    and "sent s' = sent ?s1 @ map (\<lambda>p. (p, SIGINT)) it"
    and "running s' = running ?s1" and "zombies s' = zombies ?s1"
    by blast
  then show ?case by (simp add: sys_kill_def usleep_def)
qed

lemma killBgProcs_undisturbed:
  "\<exists>s'. killBgProcs [] s = Returns s' \<and> bgProcIDs s' = []
     \<and> sent s' = sent s @ map (\<lambda>p. (p, SIGINT)) (bgProcIDs s)
     \<and> running s' = running s \<and> zombies s' = zombies s"
  using kill_loop_undisturbed[of "bgProcIDs s" s] by (auto simp: killBgProcs_def)

text \<open>
  Claim C3 does not hold of the code. The list holds the running jobs \<open>1\<close>, \<open>2\<close>, \<open>3\<close>. The
  first turn sends \<open>SIGINT\<close> to job \<open>1\<close> and sleeps; job \<open>1\<close> dies of it, the signal is
  delivered during the sleep, the handler's \<open>wait\<close> returns \<open>1\<close> and \<open>remove(1)\<close> erases the
  node under the iterator of the loop; \<^verbatim>\<open>++it\<close> then uses the erased node. One request of
  three has been sent, and the call does not return normally. Both events are possible at
  that point of the run. When instead job \<open>2\<close> exits by itself during the first sleep, the
  call returns with two requests sent, none to job \<open>2\<close>. Only a call whose sleeps no
  handler falls into sends all three.
\<close>

theorem killBgProcs_uses_erased_node:
  "killBgProcs [[Child_exit 1, Sigchld 1]]
       (init_world\<lparr>bgProcIDs := [1, 2, 3], running := [1, 2, 3]\<rparr>)
     = Faults Use_after_free
   \<and> async_enabled (Child_exit 1)
        (sys_kill 1 SIGINT (init_world\<lparr>bgProcIDs := [1, 2, 3], running := [1, 2, 3]\<rparr>))
   \<and> async_enabled (Sigchld 1)
        (async_apply (Child_exit 1)
          (sys_kill 1 SIGINT (init_world\<lparr>bgProcIDs := [1, 2, 3], running := [1, 2, 3]\<rparr>)))
   \<and> killBgProcs [[Child_exit 2, Sigchld 2]]
       (init_world\<lparr>bgProcIDs := [1, 2, 3], running := [1, 2, 3]\<rparr>)
     = Returns (init_world\<lparr>bgProcIDs := [], running := [1, 3],
         sent := [(1, SIGINT), (3, SIGINT)]\<rparr>)
   \<and> killBgProcs [] (init_world\<lparr>bgProcIDs := [1, 2, 3], running := [1, 2, 3]\<rparr>)
     = Returns (init_world\<lparr>bgProcIDs := [], running := [1, 2, 3],
         sent := [(1, SIGINT), (2, SIGINT), (3, SIGINT)]\<rparr>)"
  by code_simp

section \<open>Properties of the launcher\<close>

lemma quiet_run:
  "run evs (s, Some p) = Some (s', l') \<Longrightarrow> Parent \<notin> set evs \<Longrightarrow>
   l' = Some p \<and> pt s' = pt s
   \<and> (Async (Child_exit p) \<notin> set evs \<longrightarrow> p \<in> set (running s) \<longrightarrow> p \<in> set (running s'))"
proof (induction evs arbitrary: s)
  case Nil
  then show ?case by simp
next
  case (Cons e es)
  from Cons.prems obtain s1 l1 where st: "step e (s, Some p) = Some (s1, l1)"
    and r: "run es (s1, l1) = Some (s', l')"
    by (auto split: option.splits)
  from Cons.prems(2) obtain a where e: "e = Async a" using st by (cases e) auto
  from st e have l1: "l1 = Some p" and pt1: "pt s1 = pt s"
    and keep: "e \<noteq> Async (Child_exit p) \<Longrightarrow> p \<in> set (running s) \<Longrightarrow> p \<in> set (running s1)"
    by (cases a; auto simp: child_exit_def child_handler_def reap_def Let_def
        split: if_splits)+
  from Cons.IH[of s1] r l1 Cons.prems(2)
  have "l' = Some p \<and> pt s' = pt s1
    \<and> (Async (Child_exit p) \<notin> set es \<longrightarrow> p \<in> set (running s1) \<longrightarrow> p \<in> set (running s'))"
    by simp
  with pt1 keep show ?case by auto
qed

text \<open>
  Claim C5. Foreground: in every run, between the \<open>fork\<close> of a foreground child and the
  return of that call of \<open>execute\<close>, the exit of that very child has occurred; at the return
  the child has been collected. As a function: the parent's code with \<open>pt = FORE\<close> does not
  return while the child runs, and once the child has terminated it returns with the child
  collected and its status discarded. Background: with \<open>pt = BACK\<close> the parent's code returns
  in every state, also while the child runs; it appends the handle to the job list and
  changes nothing else.
\<close>

theorem execute_wait_policy:
  "(run (Fork FORE pid # evs @ [Parent]) (s, None) = Some (s', l') \<longrightarrow> Parent \<notin> set evs \<longrightarrow>
      Async (Child_exit pid) \<in> set evs \<and> pid \<notin> children s' \<and> l' = None)
   \<and> (0 < pid \<longrightarrow> pt s = FORE \<longrightarrow> pid \<in> set (running s) \<longrightarrow> execute pid e c s = Blocks)
   \<and> (0 < pid \<longrightarrow> pt s = FORE \<longrightarrow> pid \<notin> set (running s) \<longrightarrow>
        execute pid e c s = Returns (reap pid s))
   \<and> (0 < pid \<longrightarrow> pt s = BACK \<longrightarrow>
        execute pid e c s = Returns (s\<lparr>bgProcIDs := bgProcIDs s @ [pid]\<rparr>))"
proof (intro conjI impI)
  assume r: "run (Fork FORE pid # evs @ [Parent]) (s, None) = Some (s', l')"
    and np: "Parent \<notin> set evs"
  from r obtain s1 where f: "step (Fork FORE pid) (s, None) = Some (s1, Some pid)"
    and r1: "run (evs @ [Parent]) (s1, Some pid) = Some (s', l')"
    by (auto split: option.splits if_splits)
  from f have s1: "pid \<in> set (running s1)" "pt s1 = FORE" "0 < pid"
    by (auto simp: sys_fork_def split: if_splits)
  from r1 obtain s2 l2 where r2: "run evs (s1, Some pid) = Some (s2, l2)"
    and p: "step Parent (s2, l2) = Some (s', l')"
    by (auto simp: run_append split: option.splits)
  from quiet_run[OF r2 np] s1 have l2: "l2 = Some pid" and pt2: "pt s2 = FORE"
    and keep: "Async (Child_exit pid) \<notin> set evs \<Longrightarrow> pid \<in> set (running s2)"
    by auto
  from p l2 pt2 s1(3) have nr: "pid \<notin> set (running s2)" and s': "s' = reap pid s2"
    and l': "l' = None"
    by (auto simp: execute_def sys_waitpid_def split: if_splits option.splits)
  from nr keep show "Async (Child_exit pid) \<in> set evs" by blast
  from nr s' show "pid \<notin> children s'" by (simp add: children_def reap_def)
  from l' show "l' = None" .
qed (simp_all add: execute_def sys_waitpid_def)

theorem execute_wait_policy_witness:
  "run (Fork FORE 6 # [Async (Child_exit 6)] @ [Parent]) (init_world, None)
     = Some (init_world\<lparr>sigchld := True\<rparr>, None)
   \<and> Parent \<notin> set [Async (Child_exit 6)]
   \<and> Async (Child_exit 6) \<in> set [Async (Child_exit 6)]
   \<and> 6 \<notin> children (init_world\<lparr>sigchld := True\<rparr>)
   \<and> execute 6 False ''sleep'' (init_world\<lparr>running := [6]\<rparr>) = Blocks
   \<and> execute 6 False ''sleep'' (init_world\<lparr>zombies := [6]\<rparr>)
       = Returns (reap 6 (init_world\<lparr>zombies := [6]\<rparr>))
   \<and> execute 6 False ''sleep'' (init_world\<lparr>pt := BACK, running := [6]\<rparr>)
       = Returns (init_world\<lparr>pt := BACK, running := [6], bgProcIDs := [6]\<rparr>)"
proof -
  have r: "run (Fork FORE 6 # [Async (Child_exit 6)] @ [Parent]) (init_world, None)
     = Some (init_world\<lparr>sigchld := True\<rparr>, None)"
    by (simp add: init_world_def sys_fork_def children_def execute_def sys_waitpid_def
        child_exit_def reap_def)
  have n: "Parent \<notin> set [Async (Child_exit 6)]" by simp
  note w1 = execute_wait_policy[of 6 "[Async (Child_exit 6)]" init_world
      "init_world\<lparr>sigchld := True\<rparr>" None False "''sleep''"]
  note w2 = execute_wait_policy[of 6 "[]" "init_world\<lparr>running := [6]\<rparr>" _ _ False "''sleep''"]
  note w3 = execute_wait_policy[of 6 "[]" "init_world\<lparr>zombies := [6]\<rparr>" _ _ False "''sleep''"]
  note w4 = execute_wait_policy[of 6 "[]" "init_world\<lparr>pt := BACK, running := [6]\<rparr>" _ _ False
      "''sleep''"]
  from w1 r n have c1: "Async (Child_exit 6) \<in> set [Async (Child_exit 6)]
      \<and> 6 \<notin> children (init_world\<lparr>sigchld := True\<rparr>)"
    by blast
  from w2 have c2: "execute 6 False ''sleep'' (init_world\<lparr>running := [6]\<rparr>) = Blocks"
    by (simp add: init_world_def)
  from w3 have c3: "execute 6 False ''sleep'' (init_world\<lparr>zombies := [6]\<rparr>)
       = Returns (reap 6 (init_world\<lparr>zombies := [6]\<rparr>))"
    by (simp add: init_world_def)
  from w4 have c4: "execute 6 False ''sleep'' (init_world\<lparr>pt := BACK, running := [6]\<rparr>)
       = Returns (init_world\<lparr>pt := BACK, running := [6], bgProcIDs := [6]\<rparr>)"
    by (simp add: init_world_def)
  from r n c1 c2 c3 c4 show ?thesis by blast
qed

text \<open>
  Claim C6 does not hold of the code. \<open>execute\<close> registers the handle only after \<open>fork\<close> has
  returned, and nothing holds the signal back in between. A background child \<open>5\<close> that
  exits at once: \<open>fork\<close> returns, the child exits, the handler runs, its \<open>wait\<close> returns \<open>5\<close>
  and \<open>remove(5)\<close> finds nothing to erase; then \<open>push_back(5)\<close> runs. The list now holds \<open>5\<close>
  for good, although child \<open>5\<close> has been collected and no handle is outstanding; a later
  \<open>killBgProcs\<close> sends \<open>SIGINT\<close> to that identifier, which is no child of the shell any more.
\<close>

theorem registration_after_removal:
  "run [Fork BACK 5, Async (Child_exit 5), Async (Sigchld 5), Parent] (init_world, None)
     = Some (init_world\<lparr>pt := BACK, bgProcIDs := [5]\<rparr>, None)
   \<and> children (init_world\<lparr>pt := BACK, bgProcIDs := [5]\<rparr>) = {}
   \<and> outstanding [Fork BACK 5, Async (Child_exit 5), Async (Sigchld 5), Parent] {} = {}
   \<and> killBgProcs [] (init_world\<lparr>pt := BACK, bgProcIDs := [5]\<rparr>)
       = Returns (init_world\<lparr>pt := BACK, bgProcIDs := [], sent := [(5, SIGINT)]\<rparr>)"
  by (simp add: init_world_def sys_fork_def children_def execute_def
      child_exit_def sys_wait_def child_handler_def reap_def
      killBgProcs_def sys_kill_def usleep_def)


section \<open>Properties of the parser\<close>

lemma strtok_token:
  assumes "strtok ln = Some (tok, rest)"
  shows "tok \<noteq> [] \<and> set tok \<subseteq> set ln \<and> set rest \<subseteq> set ln"
proof -
  let ?t = "dropWhile (\<lambda>c. c = CHR '' '') ln"
  from assms have ne: "?t \<noteq> []" and tok: "tok = takeWhile (\<lambda>c. c \<noteq> CHR '' '') ?t"
    and rest: "rest = drop 1 (dropWhile (\<lambda>c. c \<noteq> CHR '' '') ?t)"
    by (auto simp: strtok_def Let_def split: if_splits)
  from ne have "hd ?t \<noteq> CHR '' ''" using hd_dropWhile[of "\<lambda>c. c = CHR '' ''" ln] by simp
  with ne have "tok \<noteq> []" unfolding tok by (cases ?t) auto
  moreover have "set tok \<subseteq> set ln" unfolding tok
    using set_takeWhileD set_dropWhileD by fastforce
  moreover have "set rest \<subseteq> set ln" unfolding rest
    by (meson in_set_dropD set_dropWhileD subsetI)
  ultimately show ?thesis by blast
qed

lemma strtok_all_tokens:
  "tok \<in> set (strtok_all ln) \<Longrightarrow> tok \<noteq> [] \<and> set tok \<subseteq> set ln"
proof (induction ln rule: strtok_all.induct)
  case (1 ln)
  show ?case
  proof (cases "strtok ln")
    case None
    with "1.prems" show ?thesis by (subst (asm) strtok_all.simps) simp
  next
    case (Some p)
    obtain t rest where p: "p = (t, rest)" by (cases p)
    from strtok_token[OF Some[unfolded p]] have t: "t \<noteq> []" "set t \<subseteq> set ln" "set rest \<subseteq> set ln"
      by auto
    from "1.prems" Some p have "tok = t \<or> tok \<in> set (strtok_all rest)"
      by (subst (asm) strtok_all.simps) simp
    then show ?thesis
    proof
      assume "tok = t" with t show ?thesis by simp
    next
      assume "tok \<in> set (strtok_all rest)"
      from "1.IH"[OF Some p[symmetric] this] t show ?thesis by auto
    qed
  qed
qed

lemma fill_arg_fresh:
  assumes "argNum < length (my_argv s)" and "my_argv s ! argNum = None"
    and "n \<le> length tok" and "NUL \<notin> set (take n tok)"
  shows "fill_arg mem argNum (n + 1) tok n s
     = (if mem argNum n = NUL
        then Inr (s\<lparr>my_argv := (my_argv s)[argNum := Some (take n tok @ [NUL])]\<rparr>)
        else Inl Block_overrun)"
proof -
  have "drop n (malloc (mem argNum) (n + 1)) = [mem argNum n]"
    by (simp add: malloc_def drop_map)
  with assms(3)
  have cp: "strncpy tok n (malloc (mem argNum) (n + 1)) = Some (take n tok @ [mem argNum n])"
    by (simp add: strncpy_def malloc_def)
  have "strncat1 NUL (take n tok @ [mem argNum n])
      = (if mem argNum n = NUL then Some (take n tok @ [NUL]) else None)"
    using assms(4) by (auto simp: strncat1_def strlen_def)
  with cp assms(1,2) show ?thesis by (simp add: fill_arg_def)
qed

lemma filled_step:
  "length xs < ARGS_MAX \<Longrightarrow> (filled xs)[length xs := Some (x @ [NUL])] = filled (xs @ [x])"
proof -
  assume a: "length xs < ARGS_MAX"
  then obtain k where k: "ARGS_MAX - length xs = Suc k" by (cases "ARGS_MAX - length xs") auto
  then have k': "ARGS_MAX - length (xs @ [x]) = k" by simp
  show ?thesis unfolding filled_def k k'
    by (simp add: list_update_append)
qed

lemma filled_props:
  "length (filled xs) = max ARGS_MAX (length xs)"
  "length xs < ARGS_MAX \<Longrightarrow> filled xs ! length xs = None"
  by (auto simp: filled_def nth_append)

lemma terminated_append:
  "terminated mem d (xs @ ys)
     = (terminated mem d xs \<and> terminated mem (d + length xs) ys)"
  by (induction xs arbitrary: d) auto

lemma loop_plain:
  assumes "\<forall>x\<in>set pre. plain x \<and> NUL \<notin> set x" and "my_argv s = filled done"
    and "length done + length pre \<le> ARGS_MAX"
  shows "getArgs_loop mem (pre @ rest) (length done) s
     = (if terminated mem (length done) pre
        then getArgs_loop mem rest (length done + length pre)
               (s\<lparr>my_argv := filled (done @ pre)\<rparr>)
        else Inl Block_overrun)"
  using assms
proof (induction pre arbitrary: "done" s)
  case Nil
  from Nil.prems(2)[symmetric] show ?case by simp
next
  case (Cons x pre)
  from Cons.prems have x: "x \<noteq> []" "last x \<noteq> CHR ''&''" "NUL \<notin> set x"
    and lt: "length done < ARGS_MAX"
    by (auto simp: plain_def)
  from lt Cons.prems(2) x(3)
  have f: "fill_arg mem (length done) (length x + 1) x (length x) s
      = (if mem (length done) (length x) = NUL
         then Inr (s\<lparr>my_argv := filled (done @ [x])\<rparr>) else Inl Block_overrun)"
    using fill_arg_fresh[of "length done" s "length x" x mem]
    by (simp add: filled_props filled_step)
  have "getArgs_loop mem (pre @ rest) (length (done @ [x]))
        (s\<lparr>my_argv := filled (done @ [x])\<rparr>)
    = (if terminated mem (length (done @ [x])) pre
       then getArgs_loop mem rest (length (done @ [x]) + length pre)
              (s\<lparr>my_argv := filled (done @ [x]), my_argv := filled ((done @ [x]) @ pre)\<rparr>)
       else Inl Block_overrun)"
    using Cons.prems by (intro Cons.IH) auto
  with x f show ?case by simp
qed


lemma filled_Nil: "filled [] = replicate ARGS_MAX None"
  by (simp add: filled_def)

lemma loop_plain0:
  assumes "\<forall>x\<in>set pre. plain x \<and> NUL \<notin> set x" and "my_argv s = replicate ARGS_MAX None"
    and "length pre \<le> ARGS_MAX"
  shows "getArgs_loop mem (pre @ rest) 0 s
     = (if terminated mem 0 pre
        then getArgs_loop mem rest (length pre) (s\<lparr>my_argv := filled pre\<rparr>)
        else Inl Block_overrun)"
  using loop_plain[of pre s "[]" mem rest] assms by (simp add: filled_Nil)

lemma getArgs_loop_fg:
  assumes "\<forall>x\<in>set toks. plain x \<and> NUL \<notin> set x" and "my_argv s = replicate ARGS_MAX None"
    and "length toks < ARGS_MAX"
  shows "getArgs_loop mem toks 0 s
     = (if terminated mem 0 toks then Inr (s\<lparr>my_argv := filled toks, pt := FORE\<rparr>)
        else Inl Block_overrun)"
  using loop_plain0[of toks s mem "[]"] assms by simp

lemma getArgs_loop_null:
  assumes "\<forall>x\<in>set toks. plain x \<and> NUL \<notin> set x" and "my_argv s = replicate ARGS_MAX None"
    and "length toks = ARGS_MAX"
  shows "getArgs_loop mem toks 0 s
     = (if terminated mem 0 toks then Inl Null_deref else Inl Block_overrun)"
  using loop_plain0[of toks s mem "[]"] assms by simp

lemma getArgs_loop_oob:
  assumes "\<forall>x\<in>set (take (ARGS_MAX + 1) toks). plain x \<and> NUL \<notin> set x"
    and "my_argv s = replicate ARGS_MAX None" and "ARGS_MAX < length toks"
  shows "getArgs_loop mem toks 0 s
     = (if terminated mem 0 (take ARGS_MAX toks) then Inl (Out_of_bounds ARGS_MAX)
        else Inl Block_overrun)"
proof -
  let ?pre = "take ARGS_MAX toks"
  from assms(3) obtain x post where d: "drop ARGS_MAX toks = x # post"
    by (cases "drop ARGS_MAX toks") auto
  then have toks: "toks = ?pre @ x # post" by (metis append_take_drop_id)
  from assms(3) have len: "length ?pre = ARGS_MAX" by simp
  have "take (ARGS_MAX + 1) (?pre @ x # post) = ?pre @ [x]" using len by simp
  with toks have tk: "take (ARGS_MAX + 1) toks = ?pre @ [x]" by simp
  from assms(1) have x: "plain x" and pre: "\<forall>y\<in>set ?pre. plain y \<and> NUL \<notin> set y"
    unfolding tk by simp_all
  have "getArgs_loop mem (?pre @ x # post) 0 s
      = (if terminated mem 0 ?pre
         then getArgs_loop mem (x # post) (length ?pre) (s\<lparr>my_argv := filled ?pre\<rparr>)
         else Inl Block_overrun)"
    using pre assms(2) len by (intro loop_plain0) auto
  also have "\<dots> = (if terminated mem 0 ?pre then Inl (Out_of_bounds ARGS_MAX)
         else Inl Block_overrun)"
    using x len by (simp add: plain_def fill_arg_def filled_props)
  finally show ?thesis using toks by simp
qed

lemma getArgs_loop_bg:
  assumes "\<forall>x\<in>set pre. plain x \<and> NUL \<notin> set x" and "my_argv s = replicate ARGS_MAX None"
    and "length pre < ARGS_MAX" and "NUL \<notin> set t"
  shows "getArgs_loop mem (pre @ (t @ ''&'') # post) 0 s
     = (if terminated mem 0 (pre @ (if t = [] then [] else [t]))
        then Inr (s\<lparr>my_argv := filled (pre @ (if t = [] then [] else [t])), pt := BACK\<rparr>)
        else Inl Block_overrun)"
proof -
  have "getArgs_loop mem (pre @ (t @ ''&'') # post) 0 s
      = (if terminated mem 0 pre
         then getArgs_loop mem ((t @ ''&'') # post) (length pre) (s\<lparr>my_argv := filled pre\<rparr>)
         else Inl Block_overrun)"
    using assms by (intro loop_plain0) auto
  also have "\<dots> = (if terminated mem 0 (pre @ (if t = [] then [] else [t]))
        then Inr (s\<lparr>my_argv := filled (pre @ (if t = [] then [] else [t])), pt := BACK\<rparr>)
        else Inl Block_overrun)"
  proof (cases "t = []")
    case True
    then show ?thesis by simp
  next
    case False
    have "fill_arg mem (length pre) (length t + 1) (t @ ''&'') (length t)
        (s\<lparr>my_argv := filled pre\<rparr>)
      = (if mem (length pre) (length t) = NUL
         then Inr (s\<lparr>my_argv := filled pre,
                my_argv := (filled pre)[length pre := Some (t @ [NUL])]\<rparr>)
         else Inl Block_overrun)"
      using assms(3,4)
        fill_arg_fresh[of "length pre" "s\<lparr>my_argv := filled pre\<rparr>" "length t" "t @ ''&''" mem]
      by (simp add: filled_props)
    with False assms(3) show ?thesis by (simp add: filled_step terminated_append)
  qed
  finally show ?thesis .
qed

lemma getArgs_loop_bg_full:
  assumes "\<forall>x\<in>set pre. plain x \<and> NUL \<notin> set x" and "my_argv s = replicate ARGS_MAX None"
    and "length pre = ARGS_MAX"
  shows "getArgs_loop mem (pre @ (t @ ''&'') # post) 0 s
     = (if terminated mem 0 pre
        then (if t = [] then Inr (s\<lparr>my_argv := filled pre, pt := BACK\<rparr>)
              else Inl (Out_of_bounds ARGS_MAX))
        else Inl Block_overrun)"
proof -
  have "getArgs_loop mem (pre @ (t @ ''&'') # post) 0 s
      = (if terminated mem 0 pre
         then getArgs_loop mem ((t @ ''&'') # post) (length pre) (s\<lparr>my_argv := filled pre\<rparr>)
         else Inl Block_overrun)"
    using assms by (intro loop_plain0) auto
  also have "\<dots> = (if terminated mem 0 pre
        then (if t = [] then Inr (s\<lparr>my_argv := filled pre, pt := BACK\<rparr>)
              else Inl (Out_of_bounds ARGS_MAX))
        else Inl Block_overrun)"
    using assms(3) by (simp add: fill_arg_def filled_props)
  finally show ?thesis .
qed

lemma tokens_plain:
  "\<forall>x\<in>set xs. last x \<noteq> CHR ''&'' \<Longrightarrow> set xs \<subseteq> set (strtok_all ln) \<Longrightarrow> NUL \<notin> set ln
   \<Longrightarrow> \<forall>x\<in>set xs. plain x \<and> NUL \<notin> set x"
proof
  fix x
  assume a: "\<forall>x\<in>set xs. last x \<noteq> CHR ''&''" "set xs \<subseteq> set (strtok_all ln)"
    "NUL \<notin> set ln" "x \<in> set xs"
  then have "x \<in> set (strtok_all ln)" by blast
  from strtok_all_tokens[OF this] a show "plain x \<and> NUL \<notin> set x"
    by (auto simp: plain_def)
qed

text \<open>
  Claim C7 does not hold of the code. \<open>getArgs\<close> copies exactly the characters of a token
  into a block one byte longer and never writes the terminator: the call of \<open>strncat\<close>
  appends the empty string, to a string that ends wherever the block happens to hold a
  zero byte. On memory without zero bytes the 3-byte block for \<^verbatim>\<open>ls\<close> holds \<^verbatim>\<open>lsx\<close>, and
  looking for its end reads behind the block; no argument vector \<open>[ls, -l]\<close> results, for
  either line. Only on memory that holds zero bytes do the two lines parse as the claim
  says.
\<close>

theorem getArgs_leaves_arguments_unterminated:
  "strncpy ''ls'' 2 (malloc (dirty 0) 3) = Some ''lsx''
   \<and> strncat1 NUL ''lsx'' = None
   \<and> getArgs dirty ''ls -l &'' init_world = Inl Block_overrun
   \<and> getArgs dirty ''ls -l'' init_world = Inl Block_overrun
   \<and> map_sum id command_line (getArgs zeroed ''ls -l &'' init_world)
       = Inr (Some (''ls'', [''ls'', ''-l''], BACK))
   \<and> map_sum id command_line (getArgs zeroed ''ls -l'' init_world)
       = Inr (Some (''ls'', [''ls'', ''-l''], FORE))"
  by code_simp

text \<open>
  Claim C9 as worded fails: a line can have more than ten tokens, not end in \<open>&\<close>, have
  more than ten tokens that do not end in \<open>&\<close>, and still be parsed without any access
  outside \<open>my_argv\<close>, because the loop returns at the first token that ends in \<open>&\<close>.
\<close>

theorem getArgs_long_line_parsed:
  "strtok_all ''a b& c d e f g h i j k l''
     = [''a'', ''b&'', ''c'', ''d'', ''e'', ''f'', ''g'', ''h'', ''i'', ''j'', ''k'', ''l'']
   \<and> getArgs zeroed ''a b& c d e f g h i j k l'' init_world
     = Inr (init_world\<lparr>my_argv := filled [''a'', ''b''], pt := BACK\<rparr>)"
  by code_simp

text \<open>
  Claim C9, as the code has it. Take an array of null pointers, a line without \<open>NUL\<close>
  bytes, and any content \<open>mem\<close> of the memory that \<open>malloc\<close> hands out. What \<open>getArgs\<close> does
  is decided by the tokens up to the first one that ends in \<open>&\<close>, and by whether the blocks
  of the arguments stored hold \<open>NUL\<close> behind the copied bytes; if one does not, looking for
  its terminator reads behind the block.
  \<^item> When the first \<open>ARGS_MAX + 1\<close> tokens exist and none of them ends in \<open>&\<close>, the call
    commits a memory error whatever the memory holds: it uses \<open>my_argv[ARGS_MAX]\<close>, behind
    the end of the array, unless it has read behind a block before.
  \<^item> When there are exactly \<open>ARGS_MAX\<close> tokens and none ends in \<open>&\<close>, the call commits a
    memory error whatever the memory holds: the token pointer becomes null with
    \<open>argNum = ARGS_MAX\<close>, the loop condition still holds and the body reads through the
    null pointer, unless it has read behind a block before.
  \<^item> With fewer than \<open>ARGS_MAX\<close> tokens, none ending in \<open>&\<close>, the parse is safe exactly
    when all blocks are terminated.
  \<^item> When a token ending in \<open>&\<close> comes after fewer than \<open>ARGS_MAX\<close> tokens, the parse is
    safe, whatever follows that token, exactly when the blocks stored are terminated;
    after exactly \<open>ARGS_MAX\<close> tokens it is safe for the bare \<open>&\<close> on terminated blocks and
    uses \<open>my_argv[ARGS_MAX]\<close> otherwise.
  \<^item> Whenever the token pointer is null and \<open>argNum \<ge> ARGS_MAX\<close>, the loop reads through
    the null pointer.
\<close>

theorem getArgs_memory_safety:
  assumes "my_argv s = replicate ARGS_MAX None" and "NUL \<notin> set line"
  shows "(ARGS_MAX < length (strtok_all line) \<longrightarrow>
          (\<forall>x\<in>set (take (ARGS_MAX + 1) (strtok_all line)). last x \<noteq> CHR ''&'') \<longrightarrow>
            getArgs mem line s
              = (if terminated mem 0 (take ARGS_MAX (strtok_all line))
                 then Inl (Out_of_bounds ARGS_MAX) else Inl Block_overrun))
     \<and> (length (strtok_all line) = ARGS_MAX \<longrightarrow>
          (\<forall>x\<in>set (strtok_all line). last x \<noteq> CHR ''&'') \<longrightarrow>
            getArgs mem line s
              = (if terminated mem 0 (strtok_all line) then Inl Null_deref
                 else Inl Block_overrun))
     \<and> (length (strtok_all line) < ARGS_MAX \<longrightarrow>
          (\<forall>x\<in>set (strtok_all line). last x \<noteq> CHR ''&'') \<longrightarrow>
            getArgs mem line s
              = (if terminated mem 0 (strtok_all line)
                 then Inr (s\<lparr>my_argv := filled (strtok_all line), pt := FORE\<rparr>)
                 else Inl Block_overrun))
     \<and> (strtok_all line = pre @ (t @ ''&'') # post \<longrightarrow>
          (\<forall>x\<in>set pre. last x \<noteq> CHR ''&'') \<longrightarrow> length pre < ARGS_MAX \<longrightarrow>
            getArgs mem line s
              = (if terminated mem 0 (pre @ (if t = [] then [] else [t]))
                 then Inr (s\<lparr>my_argv := filled (pre @ (if t = [] then [] else [t])),
                        pt := BACK\<rparr>)
                 else Inl Block_overrun))
     \<and> (strtok_all line = pre @ (t @ ''&'') # post \<longrightarrow>
          (\<forall>x\<in>set pre. last x \<noteq> CHR ''&'') \<longrightarrow> length pre = ARGS_MAX \<longrightarrow>
            getArgs mem line s
              = (if terminated mem 0 pre
                 then (if t = [] then Inr (s\<lparr>my_argv := filled pre, pt := BACK\<rparr>)
                       else Inl (Out_of_bounds ARGS_MAX))
                 else Inl Block_overrun))
     \<and> (ARGS_MAX \<le> argNum \<longrightarrow> getArgs_loop mem [] argNum s0 = Inl Null_deref)"
proof (intro conjI impI)
  assume a: "ARGS_MAX < length (strtok_all line)"
    "\<forall>x\<in>set (take (ARGS_MAX + 1) (strtok_all line)). last x \<noteq> CHR ''&''"
  have "set (take (ARGS_MAX + 1) (strtok_all line)) \<subseteq> set (strtok_all line)"
    by (rule set_take_subset)
  from tokens_plain[OF a(2) this assms(2)] getArgs_loop_oob[OF _ assms(1) a(1), of mem]
  show "getArgs mem line s
      = (if terminated mem 0 (take ARGS_MAX (strtok_all line))
         then Inl (Out_of_bounds ARGS_MAX) else Inl Block_overrun)"
    by (simp add: getArgs_def)
next
  assume a: "length (strtok_all line) = ARGS_MAX"
    "\<forall>x\<in>set (strtok_all line). last x \<noteq> CHR ''&''"
  from tokens_plain[OF a(2) subset_refl assms(2)] getArgs_loop_null[OF _ assms(1) a(1), of mem]
  show "getArgs mem line s
      = (if terminated mem 0 (strtok_all line) then Inl Null_deref else Inl Block_overrun)"
    by (simp add: getArgs_def)
next
  assume a: "length (strtok_all line) < ARGS_MAX"
    "\<forall>x\<in>set (strtok_all line). last x \<noteq> CHR ''&''"
  from tokens_plain[OF a(2) subset_refl assms(2)] getArgs_loop_fg[OF _ assms(1) a(1), of mem]
  show "getArgs mem line s
      = (if terminated mem 0 (strtok_all line)
         then Inr (s\<lparr>my_argv := filled (strtok_all line), pt := FORE\<rparr>)
         else Inl Block_overrun)"
    by (simp add: getArgs_def)
next
  assume a: "strtok_all line = pre @ (t @ ''&'') # post"
    "\<forall>x\<in>set pre. last x \<noteq> CHR ''&''" "length pre < ARGS_MAX"
  from a(1) have sub: "set pre \<subseteq> set (strtok_all line)" by auto
  from a(1) have "t @ ''&'' \<in> set (strtok_all line)" by simp
  with strtok_all_tokens assms(2) have t: "NUL \<notin> set t" by fastforce
  from tokens_plain[OF a(2) sub assms(2)]
    getArgs_loop_bg[OF _ assms(1) a(3) t, of mem post] a(1)
  show "getArgs mem line s
      = (if terminated mem 0 (pre @ (if t = [] then [] else [t]))
         then Inr (s\<lparr>my_argv := filled (pre @ (if t = [] then [] else [t])), pt := BACK\<rparr>)
         else Inl Block_overrun)"
    by (simp add: getArgs_def)
next
  assume a: "strtok_all line = pre @ (t @ ''&'') # post"
    "\<forall>x\<in>set pre. last x \<noteq> CHR ''&''" "length pre = ARGS_MAX"
  from a(1) have "set pre \<subseteq> set (strtok_all line)" by auto
  from tokens_plain[OF a(2) this assms(2)]
    getArgs_loop_bg_full[OF _ assms(1) a(3), of mem t post] a(1)
  show "getArgs mem line s
      = (if terminated mem 0 pre
         then (if t = [] then Inr (s\<lparr>my_argv := filled pre, pt := BACK\<rparr>)
               else Inl (Out_of_bounds ARGS_MAX))
         else Inl Block_overrun)"
    by (simp add: getArgs_def)
next
  assume "ARGS_MAX \<le> argNum"
  then show "getArgs_loop mem [] argNum s0 = Inl Null_deref" by simp
qed

theorem getArgs_memory_safety_witness:
  "getArgs zeroed ''a b c d e f g h i j k'' init_world = Inl (Out_of_bounds ARGS_MAX)
   \<and> getArgs dirty ''a b c d e f g h i j k'' init_world = Inl Block_overrun
   \<and> getArgs zeroed ''a b c d e f g h i j'' init_world = Inl Null_deref
   \<and> getArgs zeroed ''a b c d e f g h i j &'' init_world
       = Inr (init_world\<lparr>my_argv := filled [''a'', ''b'', ''c'', ''d'', ''e'', ''f'', ''g'', ''h'',
            ''i'', ''j''], pt := BACK\<rparr>)
   \<and> getArgs zeroed ''a b c d e f g h i j k&'' init_world = Inl (Out_of_bounds ARGS_MAX)
   \<and> getArgs zeroed ''a b& c d e f g h i j k l'' init_world
       = Inr (init_world\<lparr>my_argv := filled [''a'', ''b''], pt := BACK\<rparr>)
   \<and> getArgs dirty ''a b& c d e f g h i j k l'' init_world = Inl Block_overrun
   \<and> getArgs_loop zeroed [] ARGS_MAX init_world = Inl Null_deref"
proof -
  have h: "my_argv init_world = replicate ARGS_MAX None" by (simp add: init_world_def)
  have n11: "NUL \<notin> set ''a b c d e f g h i j k''" by (simp add: NUL_def)
  have n10: "NUL \<notin> set ''a b c d e f g h i j''" by (simp add: NUL_def)
  have n10a: "NUL \<notin> set ''a b c d e f g h i j &''" by (simp add: NUL_def)
  have n11a: "NUL \<notin> set ''a b c d e f g h i j k&''" by (simp add: NUL_def)
  have n12: "NUL \<notin> set ''a b& c d e f g h i j k l''" by (simp add: NUL_def)
  have t11: "strtok_all ''a b c d e f g h i j k''
      = [''a'', ''b'', ''c'', ''d'', ''e'', ''f'', ''g'', ''h'', ''i'', ''j'', ''k'']"
    by code_simp
  have t10: "strtok_all ''a b c d e f g h i j''
      = [''a'', ''b'', ''c'', ''d'', ''e'', ''f'', ''g'', ''h'', ''i'', ''j'']"
    by code_simp
  have t10a: "strtok_all ''a b c d e f g h i j &''
      = [''a'', ''b'', ''c'', ''d'', ''e'', ''f'', ''g'', ''h'', ''i'', ''j''] @ ([] @ ''&'') # []"
    by code_simp
  have t11a: "strtok_all ''a b c d e f g h i j k&''
      = [''a'', ''b'', ''c'', ''d'', ''e'', ''f'', ''g'', ''h'', ''i'', ''j''] @ (''k'' @ ''&'') # []"
    by code_simp
  have t12: "strtok_all ''a b& c d e f g h i j k l''
      = [''a''] @ (''b'' @ ''&'') # [''c'', ''d'', ''e'', ''f'', ''g'', ''h'', ''i'', ''j'', ''k'', ''l'']"
    by code_simp
  have pl: "\<forall>x\<in>set [''a'', ''b'', ''c'', ''d'', ''e'', ''f'', ''g'', ''h'', ''i'', ''j''].
      last x \<noteq> CHR ''&''"
    by simp
  have len: "length [''a'', ''b'', ''c'', ''d'', ''e'', ''f'', ''g'', ''h'', ''i'', ''j''] = ARGS_MAX"
    by (simp add: ARGS_MAX_def)
  have pl1: "\<forall>x\<in>set [''a'']. last x \<noteq> CHR ''&''" by simp
  have len1: "length [''a''] < ARGS_MAX" by (simp add: ARGS_MAX_def)
  have l11: "ARGS_MAX < length (strtok_all ''a b c d e f g h i j k'')"
    unfolding t11 by (simp add: ARGS_MAX_def)
  have p11: "\<forall>x\<in>set (take (ARGS_MAX + 1) (strtok_all ''a b c d e f g h i j k'')).
      last x \<noteq> CHR ''&''"
    unfolding t11 by (simp add: ARGS_MAX_def)
  have l10: "length (strtok_all ''a b c d e f g h i j'') = ARGS_MAX"
    unfolding t10 by (simp add: ARGS_MAX_def)
  have p10: "\<forall>x\<in>set (strtok_all ''a b c d e f g h i j''). last x \<noteq> CHR ''&''"
    unfolding t10 by simp
  from getArgs_memory_safety[OF h n11, where mem = zeroed] l11 p11
  have "getArgs zeroed ''a b c d e f g h i j k'' init_world
      = (if terminated zeroed 0 (take ARGS_MAX (strtok_all ''a b c d e f g h i j k''))
         then Inl (Out_of_bounds ARGS_MAX) else Inl Block_overrun)"
    by blast
  then have c1: "getArgs zeroed ''a b c d e f g h i j k'' init_world
      = Inl (Out_of_bounds ARGS_MAX)"
    unfolding t11 by (simp add: ARGS_MAX_def zeroed_def)
  from getArgs_memory_safety[OF h n11, where mem = dirty] l11 p11
  have "getArgs dirty ''a b c d e f g h i j k'' init_world
      = (if terminated dirty 0 (take ARGS_MAX (strtok_all ''a b c d e f g h i j k''))
         then Inl (Out_of_bounds ARGS_MAX) else Inl Block_overrun)"
    by blast
  then have c2: "getArgs dirty ''a b c d e f g h i j k'' init_world = Inl Block_overrun"
    unfolding t11 by (simp add: ARGS_MAX_def dirty_def NUL_def)
  from getArgs_memory_safety[OF h n10, where mem = zeroed] l10 p10
  have "getArgs zeroed ''a b c d e f g h i j'' init_world
      = (if terminated zeroed 0 (strtok_all ''a b c d e f g h i j'') then Inl Null_deref
         else Inl Block_overrun)"
    by blast
  then have c3: "getArgs zeroed ''a b c d e f g h i j'' init_world = Inl Null_deref"
    unfolding t10 by (simp add: zeroed_def)
  from getArgs_memory_safety[OF h n10a, where mem = zeroed and t = "[]" and post = "[]"
      and pre = "[''a'', ''b'', ''c'', ''d'', ''e'', ''f'', ''g'', ''h'', ''i'', ''j'']"] t10a pl len
  have "getArgs zeroed ''a b c d e f g h i j &'' init_world
      = (if terminated zeroed 0 [''a'', ''b'', ''c'', ''d'', ''e'', ''f'', ''g'', ''h'', ''i'', ''j'']
         then (if ([]::string) = []
               then Inr (init_world\<lparr>my_argv := filled [''a'', ''b'', ''c'', ''d'', ''e'', ''f'',
                      ''g'', ''h'', ''i'', ''j''], pt := BACK\<rparr>)
               else Inl (Out_of_bounds ARGS_MAX))
         else Inl Block_overrun)"
    by blast
  then have c4: "getArgs zeroed ''a b c d e f g h i j &'' init_world
       = Inr (init_world\<lparr>my_argv := filled [''a'', ''b'', ''c'', ''d'', ''e'', ''f'', ''g'', ''h'',
            ''i'', ''j''], pt := BACK\<rparr>)"
    by (simp add: zeroed_def)
  from getArgs_memory_safety[OF h n11a, where mem = zeroed and t = "''k''" and post = "[]"
      and pre = "[''a'', ''b'', ''c'', ''d'', ''e'', ''f'', ''g'', ''h'', ''i'', ''j'']"] t11a pl len
  have "getArgs zeroed ''a b c d e f g h i j k&'' init_world
      = (if terminated zeroed 0 [''a'', ''b'', ''c'', ''d'', ''e'', ''f'', ''g'', ''h'', ''i'', ''j'']
         then (if ''k'' = []
               then Inr (init_world\<lparr>my_argv := filled [''a'', ''b'', ''c'', ''d'', ''e'', ''f'',
                      ''g'', ''h'', ''i'', ''j''], pt := BACK\<rparr>)
               else Inl (Out_of_bounds ARGS_MAX))
         else Inl Block_overrun)"
    by blast
  then have c5: "getArgs zeroed ''a b c d e f g h i j k&'' init_world
      = Inl (Out_of_bounds ARGS_MAX)"
    by (simp add: zeroed_def)
  from getArgs_memory_safety[OF h n12, where mem = zeroed and pre = "[''a'']" and t = "''b''"
      and post = "[''c'', ''d'', ''e'', ''f'', ''g'', ''h'', ''i'', ''j'', ''k'', ''l'']"] t12 pl1 len1
  have "getArgs zeroed ''a b& c d e f g h i j k l'' init_world
      = (if terminated zeroed 0 ([''a''] @ (if ''b'' = [] then [] else [''b'']))
         then Inr (init_world\<lparr>my_argv := filled ([''a''] @ (if ''b'' = [] then [] else [''b''])),
                pt := BACK\<rparr>)
         else Inl Block_overrun)"
    by blast
  then have c6: "getArgs zeroed ''a b& c d e f g h i j k l'' init_world
       = Inr (init_world\<lparr>my_argv := filled [''a'', ''b''], pt := BACK\<rparr>)"
    by (simp add: zeroed_def)
  from getArgs_memory_safety[OF h n12, where mem = dirty and pre = "[''a'']" and t = "''b''"
      and post = "[''c'', ''d'', ''e'', ''f'', ''g'', ''h'', ''i'', ''j'', ''k'', ''l'']"] t12 pl1 len1
  have "getArgs dirty ''a b& c d e f g h i j k l'' init_world
      = (if terminated dirty 0 ([''a''] @ (if ''b'' = [] then [] else [''b'']))
         then Inr (init_world\<lparr>my_argv := filled ([''a''] @ (if ''b'' = [] then [] else [''b''])),
                pt := BACK\<rparr>)
         else Inl Block_overrun)"
    by blast
  then have c7: "getArgs dirty ''a b& c d e f g h i j k l'' init_world = Inl Block_overrun"
    by (simp add: dirty_def NUL_def)
  from getArgs_memory_safety[OF h n10, where mem = zeroed and argNum = ARGS_MAX
      and ?s0.0 = init_world]
  have c8: "getArgs_loop zeroed [] ARGS_MAX init_world = Inl Null_deref"
    by blast
  from c1 c2 c3 c4 c5 c6 c7 c8 show ?thesis by blast
qed

section \<open>Properties of the loop of main\<close>

lemma fold_async_out: "out (fold async_apply evs s) = out s"
proof (induction evs arbitrary: s)
  case Nil
  then show ?case by simp
next
  case (Cons a evs)
  have "out (async_apply a s) = out s"
    by (cases a) (simp_all add: child_exit_def child_handler_def reap_def Let_def)
  with Cons show ?case by simp
qed

lemma resetArgs_loop_out: "resetArgs_loop i s = Inr s' \<Longrightarrow> out s' = out s"
proof (induction i s rule: resetArgs_loop.induct)
  case (1 i s)
  from "1.prems" have
    "(if i \<ge> length (my_argv s) then Inl (Out_of_bounds i)
      else
        (case my_argv s ! i of
           None \<Rightarrow> Inr s
         | Some b \<Rightarrow>
             (case strlen b of
                None \<Rightarrow> Inl Block_overrun
              | Some k \<Rightarrow>
                  (case bzero (k + 1) b of
                     None \<Rightarrow> Inl Block_overrun
                   | Some b' \<Rightarrow> resetArgs_loop (i + 1) (s\<lparr>my_argv := (my_argv s)[i := None]\<rparr>)))))
     = Inr s'"
    by (subst (asm) resetArgs_loop.simps)
  then show ?case using "1.IH" by (auto split: if_splits option.splits)
qed

lemma execute_parent_cases:
  "pid \<noteq> 0 \<Longrightarrow> execute pid e c s = Blocks \<or> (\<exists>s'. execute pid e c s = Returns s' \<and> out s' = out s)"
  by (auto simp: execute_def sys_waitpid_def reap_def split: option.splits)

lemma execute_exec_ok_irrelevant:
  "pid \<noteq> 0 \<Longrightarrow> execute pid e c s = execute pid e' c s"
  by (simp add: execute_def)

lemma kill_loop_no_exit: "kill_loop sched it s \<noteq> Exits n s'"
  by (induction sched it s rule: kill_loop.induct) auto

lemma killBgProcs_no_exit: "killBgProcs sched s \<noteq> Exits n s'"
  using kill_loop_no_exit[of sched "bgProcIDs s" s]
  by (auto simp: killBgProcs_def split: outcome.splits)

lemma launch_no_exit: "fork_ret r \<noteq> 0 \<Longrightarrow> launch r c s \<noteq> Exits n s'"
  using execute_parent_cases[of "fork_ret r" "exec_ok r" c
      "fold async_apply (during r) (sys_fork (fork_ret r) s)"]
  unfolding launch_def by auto

lemma dispatch_exit_code:
  assumes "fork_ret r \<noteq> 0" and "dispatch r c s = Exits n s'"
  shows "n = 0"
proof -
  have "killBgProcs (sleeps r) s \<noteq> Exits n s'" by (rule killBgProcs_no_exit)
  moreover have "launch r c s \<noteq> Exits n s'" using assms(1) by (rule launch_no_exit)
  ultimately show ?thesis using assms(2) unfolding dispatch_def by (simp split: if_splits)
qed

lemma main_newline_exit_code:
  "fork_ret r \<noteq> 0 \<Longrightarrow> main_newline r s = Exits n s' \<Longrightarrow> n = 0"
  by (auto simp: main_newline_def split: list.splits if_splits option.splits sum.splits outcome.splits
      dest: dispatch_exit_code)

lemma main_char_exit_code:
  "fork_ret r \<noteq> 0 \<Longrightarrow> main_char r c s = Exits n s' \<Longrightarrow> n = 0"
  by (auto simp: main_char_def split: if_splits option.splits dest: main_newline_exit_code)

lemma main_loop_exit_code:
  "\<forall>rc\<in>set ics. fork_ret (fst rc) \<noteq> 0 \<Longrightarrow> main_loop ics s = Exits n s' \<Longrightarrow> n = 0"
proof (induction ics arbitrary: s)
  case Nil
  then show ?case by simp
next
  case (Cons rc ics)
  obtain r c where rc: "rc = (r, c)" by (cases rc)
  from Cons.prems rc have r: "fork_ret r \<noteq> 0" by simp
  show ?case
  proof (cases "main_char r c s")
    case (Returns s1)
    with Cons.prems rc Cons.IH[of s1] show ?thesis by (auto split: if_splits)
  next
    case (Exits m s1)
    with Cons.prems rc main_char_exit_code[OF r Exits] show ?thesis by simp
  qed (use Cons.prems rc in auto)
qed

lemma launch_exec_ok_irrelevant:
  "fork_ret r \<noteq> 0 \<Longrightarrow> launch (r\<lparr>exec_ok := b\<rparr>) c s = launch r c s"
  by (simp add: launch_def execute_def)

lemma dispatch_exec_ok_irrelevant:
  "fork_ret r \<noteq> 0 \<Longrightarrow> dispatch (r\<lparr>exec_ok := b\<rparr>) c s = dispatch r c s"
  by (simp add: dispatch_def launch_exec_ok_irrelevant)

lemma main_newline_exec_ok_irrelevant:
  "fork_ret r \<noteq> 0 \<Longrightarrow> main_newline (r\<lparr>exec_ok := b\<rparr>) s = main_newline r s"
  by (simp add: main_newline_def dispatch_exec_ok_irrelevant
      split: list.splits option.splits sum.splits)

lemma main_char_exec_ok_irrelevant:
  "fork_ret r \<noteq> 0 \<Longrightarrow> main_char (r\<lparr>exec_ok := b\<rparr>) c s = main_char r c s"
  by (simp add: main_char_def main_newline_exec_ok_irrelevant)

lemma main_loop_exec_ok_irrelevant:
  "\<forall>rc\<in>set ics. fork_ret (fst rc) \<noteq> 0 \<Longrightarrow>
   main_loop (map (\<lambda>(r, c). (r\<lparr>exec_ok := b\<rparr>, c)) ics) s = main_loop ics s"
proof (induction ics arbitrary: s)
  case Nil
  then show ?case by simp
next
  case (Cons rc ics)
  obtain r c where rc: "rc = (r, c)" by (cases rc)
  from Cons.prems rc have r: "fork_ret r \<noteq> 0" by simp
  from Cons.prems have "\<And>s. main_loop (map (\<lambda>(r, c). (r\<lparr>exec_ok := b\<rparr>, c)) ics) s = main_loop ics s"
    by (intro Cons.IH) simp
  with rc r show ?case by (simp add: main_char_exec_ok_irrelevant split: outcome.splits)
qed




lemma execute_fork_failed: "pid < 0 \<Longrightarrow> execute pid e c s = Returns s"
  by (simp add: execute_def)

lemma launch_fork_failed:
  "fork_ret r < 0 \<Longrightarrow> launch r c s = Returns (fold async_apply (during r) s)"
  by (simp add: launch_def execute_def sys_fork_def)

lemma getArgs_loop_out: "getArgs_loop mem toks n s = Inr s' \<Longrightarrow> out s' = out s"
  by (induction mem toks n s rule: getArgs_loop.induct)
    (auto simp: fill_arg_def split: if_splits sum.splits option.splits)




text \<open>
  Claim C4 as worded fails: when \<open>fork\<close> returns \<open>-1\<close>, \<open>execute\<close> returns the state it
  was given, output included. For the line \<^verbatim>\<open>ls\<close> the only bytes written are those of the
  next prompt.
\<close>

theorem fork_failure_not_reported:
  "execute (- 1) True ''ls'' init_world = Returns init_world
   \<and> main_loop (typed \<lparr>fork_ret = - 1, exec_ok = True, chdir_ok = True, during = [], sleeps = [], heap = zeroed\<rparr>
        (''ls'' @ [NEWLINE])) init_world
     = Returns (init_world\<lparr>out := prmpt @ '' ''\<rparr>)"
  by code_simp

lemma resetArgs_out: "resetArgs s = Inr s' \<Longrightarrow> out s' = out s"
  unfolding resetArgs_def by (rule resetArgs_loop_out)

text \<open>
  Claim C4, as the code has it. When \<open>fork\<close> fails in the parent, \<open>execute\<close> takes neither
  branch: it writes nothing, waits for nothing, registers nothing and returns. The
  interpreter goes on: for a line whose command is none of the built-ins, \<open>main\<close> resets
  the arguments, prints the prompt and zeroes the line, and the prompt is all it has
  written.
\<close>

theorem fork_failure_ignored_loop_continues:
  assumes "fork_ret r < 0"
  shows "execute (fork_ret r) e c s = Returns s
     \<and> launch r c s = Returns (fold async_apply (during r) s)
     \<and> out (fold async_apply (during r) s) = out s
     \<and> (input s = c0 # rest \<longrightarrow> c0 \<noteq> NUL \<longrightarrow> NUL \<in> set (input s) \<longrightarrow>
        getArgs (heap r) (c_str (input s)) s = Inr s1 \<longrightarrow> my_argv s1 ! 0 = Some b \<longrightarrow>
        c_str b \<noteq> ''cd'' \<longrightarrow> c_str b \<noteq> ''killbg'' \<longrightarrow> c_str b \<noteq> ''exit'' \<longrightarrow>
        resetArgs (fold async_apply (during r) s1) = Inr s3 \<longrightarrow>
          main_newline r s = Returns ((prompt s3)\<lparr>input := replicate CHARS_MAX NUL\<rparr>)
          \<and> out ((prompt s3)\<lparr>input := replicate CHARS_MAX NUL\<rparr>) = out s @ prmpt @ '' '')"
proof (intro conjI impI)
  from assms show "execute (fork_ret r) e c s = Returns s" by (rule execute_fork_failed)
  from assms show "launch r c s = Returns (fold async_apply (during r) s)"
    by (rule launch_fork_failed)
  show "out (fold async_apply (during r) s) = out s" by (rule fold_async_out)
next
  assume a: "input s = c0 # rest" "c0 \<noteq> NUL" "NUL \<in> set (input s)"
    "getArgs (heap r) (c_str (input s)) s = Inr s1" "my_argv s1 ! 0 = Some b"
    "c_str b \<noteq> ''cd''" "c_str b \<noteq> ''killbg''" "c_str b \<noteq> ''exit''"
    "resetArgs (fold async_apply (during r) s1) = Inr s3"
  from a(6,7,8) assms have d: "dispatch r (c_str b) s1 = Returns (fold async_apply (during r) s1)"
    by (simp add: dispatch_def launch_fork_failed)
  from a(1-5) d a(9)
  show "main_newline r s = Returns ((prompt s3)\<lparr>input := replicate CHARS_MAX NUL\<rparr>)"
    by (simp add: main_newline_def strlen_def)
  from a(4) have "out s1 = out s" unfolding getArgs_def by (rule getArgs_loop_out)
  with resetArgs_out[OF a(9)] have "out s3 = out s" by (simp add: fold_async_out)
  then show "out ((prompt s3)\<lparr>input := replicate CHARS_MAX NUL\<rparr>) = out s @ prmpt @ '' ''"
    by (simp add: prompt_def printf_def)
qed

theorem fork_failure_ignored_loop_continues_witness:
  "fork_ret \<lparr>fork_ret = - 1, exec_ok = True, chdir_ok = True, during = [], sleeps = [], heap = zeroed\<rparr> < 0
   \<and> execute (- 1) True ''ls'' (init_world\<lparr>input := ''ls'' @ replicate 98 NUL\<rparr>)
       = Returns (init_world\<lparr>input := ''ls'' @ replicate 98 NUL\<rparr>)
   \<and> main_newline \<lparr>fork_ret = - 1, exec_ok = True, chdir_ok = True, during = [], sleeps = [], heap = zeroed\<rparr>
        (init_world\<lparr>input := ''ls'' @ replicate 98 NUL\<rparr>)
       = Returns ((prompt (init_world\<lparr>input := ''ls'' @ replicate 98 NUL\<rparr>))
           \<lparr>input := replicate CHARS_MAX NUL\<rparr>)"
proof -
  let ?r = "\<lparr>fork_ret = - 1, exec_ok = True, chdir_ok = True, during = [], sleeps = [], heap = zeroed\<rparr>"
  let ?s = "init_world\<lparr>input := ''ls'' @ replicate 98 NUL\<rparr>"
  let ?s1 = "?s\<lparr>my_argv := filled [''ls''], pt := FORE\<rparr>"
  have h0: "fork_ret ?r < 0" by simp
  have h1: "input ?s = CHR ''l'' # (''s'' @ replicate 98 NUL)" by simp
  have h2: "CHR ''l'' \<noteq> NUL" by (simp add: NUL_def)
  have h3: "NUL \<in> set (input ?s)" by simp
  have h4: "getArgs (heap ?r) (c_str (input ?s)) ?s = Inr ?s1" by code_simp
  have h5: "my_argv ?s1 ! 0 = Some (''ls'' @ [NUL])" by (simp add: filled_def)
  have h6: "c_str (''ls'' @ [NUL]) \<noteq> ''cd''" "c_str (''ls'' @ [NUL]) \<noteq> ''killbg''"
    "c_str (''ls'' @ [NUL]) \<noteq> ''exit''"
    by (simp_all add: c_str_def NUL_def)
  have h7: "resetArgs (fold async_apply (during ?r) ?s1) = Inr ?s" by code_simp
  note w = fork_failure_ignored_loop_continues[OF h0, of True "''ls''" ?s
      "CHR ''l''" "''s'' @ replicate 98 NUL" ?s1 "''ls'' @ [NUL]" ?s]
  from w have c1: "execute (- 1) True ''ls'' ?s = Returns ?s" by simp
  from w h1 h2 h3 h4 h5 h6 h7
  have c2: "main_newline ?r ?s = Returns ((prompt ?s)\<lparr>input := replicate CHARS_MAX NUL\<rparr>)"
    by blast
  from h0 c1 c2 show ?thesis by blast
qed

text \<open>
  Claim C8. In the child (\<open>fork\<close> returned \<open>0\<close>), when \<open>execvp\<close> fails the process writes
  \<^verbatim>\<open><cmd>: command not found\<close> and a newline to its standard output and exits with status
  \<open>1\<close>. In the parent the code does not depend on whether the child's \<open>execvp\<close> succeeds:
  \<open>execute\<close> either waits or returns, writing nothing, and the whole run of the loop of
  \<open>main\<close> is the same when every \<open>execvp\<close> fails. Whenever the interpreter exits, its status
  is \<open>0\<close>.
\<close>

theorem exec_failure_stays_in_child:
  "execute 0 False c s = Exits 1 (printf (c @ '': command not found'' @ [NEWLINE]) s)
   \<and> (pid \<noteq> 0 \<longrightarrow> execute pid False c s = execute pid True c s)
   \<and> (pid \<noteq> 0 \<longrightarrow>
        execute pid e c s = Blocks \<or> (\<exists>s'. execute pid e c s = Returns s' \<and> out s' = out s))
   \<and> ((\<forall>rc\<in>set ics. fork_ret (fst rc) \<noteq> 0) \<longrightarrow>
        main_loop (map (\<lambda>(r, ch). (r\<lparr>exec_ok := False\<rparr>, ch)) ics) s0 = main_loop ics s0)
   \<and> ((\<forall>rc\<in>set ics. fork_ret (fst rc) \<noteq> 0) \<longrightarrow> main_loop ics s0 = Exits n s' \<longrightarrow> n = 0)
   \<and> (fork_ret r0 \<noteq> 0 \<longrightarrow> (\<forall>rc\<in>set ics. fork_ret (fst rc) \<noteq> 0) \<longrightarrow>
        main r0 ics = Exits n s' \<longrightarrow> n = 0)"
proof (intro conjI impI)
  show "execute 0 False c s = Exits 1 (printf (c @ '': command not found'' @ [NEWLINE]) s)"
    by (simp add: execute_def)
next
  assume "pid \<noteq> 0"
  then show "execute pid False c s = execute pid True c s"
    by (rule execute_exec_ok_irrelevant)
next
  assume "pid \<noteq> 0"
  then show "execute pid e c s = Blocks \<or> (\<exists>s'. execute pid e c s = Returns s' \<and> out s' = out s)"
    by (rule execute_parent_cases)
next
  assume "\<forall>rc\<in>set ics. fork_ret (fst rc) \<noteq> 0"
  then show "main_loop (map (\<lambda>(r, ch). (r\<lparr>exec_ok := False\<rparr>, ch)) ics) s0 = main_loop ics s0"
    by (rule main_loop_exec_ok_irrelevant)
next
  assume "\<forall>rc\<in>set ics. fork_ret (fst rc) \<noteq> 0" "main_loop ics s0 = Exits n s'"
  then show "n = 0" by (rule main_loop_exit_code)
next
  assume a: "fork_ret r0 \<noteq> 0" "\<forall>rc\<in>set ics. fork_ret (fst rc) \<noteq> 0" "main r0 ics = Exits n s'"
  from execute_parent_cases[OF a(1), of "exec_ok r0" "''clear''"
      "fold async_apply (during r0) (sys_fork (fork_ret r0) (init_world\<lparr>pt := FORE\<rparr>))"]
  have "launch r0 ''clear'' (init_world\<lparr>pt := FORE\<rparr>) = Blocks
      \<or> (\<exists>s1. launch r0 ''clear'' (init_world\<lparr>pt := FORE\<rparr>) = Returns s1)"
    by (auto simp: launch_def)
  with a(3) obtain s1 where "main_loop ics (prompt s1) = Exits n s'"
    by (auto simp: main_def)
  with a(2) show "n = 0" by (rule main_loop_exit_code)
qed

theorem exec_failure_stays_in_child_witness:
  "execute 0 False ''nosuch'' init_world
     = Exits 1 (printf (''nosuch'' @ '': command not found'' @ [NEWLINE]) init_world)
   \<and> main_loop (typed \<lparr>fork_ret = 5, exec_ok = False, chdir_ok = True, during = [Child_exit 5], sleeps = [], heap = zeroed\<rparr>
        (''nosuch'' @ [NEWLINE] @ ''exit'' @ [NEWLINE])) init_world
     = Exits 0 (init_world\<lparr>my_argv := filled [''exit''], input := ''exit'' @ replicate 96 NUL,
          out := prmpt @ '' '', sigchld := True\<rparr>)
   \<and> main_loop (map (\<lambda>(r, ch). (r\<lparr>exec_ok := False\<rparr>, ch))
        (typed \<lparr>fork_ret = 5, exec_ok = True, chdir_ok = True, during = [Child_exit 5], sleeps = [], heap = zeroed\<rparr>
          (''nosuch'' @ [NEWLINE] @ ''exit'' @ [NEWLINE]))) init_world
     = main_loop (typed \<lparr>fork_ret = 5, exec_ok = True, chdir_ok = True, during = [Child_exit 5], sleeps = [], heap = zeroed\<rparr>
          (''nosuch'' @ [NEWLINE] @ ''exit'' @ [NEWLINE])) init_world"
proof -
  let ?rF = "\<lparr>fork_ret = 5, exec_ok = False, chdir_ok = True, during = [Child_exit 5], sleeps = [], heap = zeroed\<rparr>"
  let ?rT = "\<lparr>fork_ret = 5, exec_ok = True, chdir_ok = True, during = [Child_exit 5], sleeps = [], heap = zeroed\<rparr>"
  let ?txt = "''nosuch'' @ [NEWLINE] @ ''exit'' @ [NEWLINE]"
  have h: "\<forall>rc\<in>set (typed ?rT ?txt). fork_ret (fst rc) \<noteq> 0"
    by (simp add: typed_def)
  have e: "main_loop (typed ?rF ?txt) init_world
     = Exits 0 (init_world\<lparr>my_argv := filled [''exit''], input := ''exit'' @ replicate 96 NUL,
          out := prmpt @ '' '', sigchld := True\<rparr>)"
    by code_simp
  note w = exec_failure_stays_in_child[of "''nosuch''" init_world 5 True "typed ?rT ?txt"
      init_world]
  from w have c1: "execute 0 False ''nosuch'' init_world
     = Exits 1 (printf (''nosuch'' @ '': command not found'' @ [NEWLINE]) init_world)"
    by blast
  from w h have c3: "main_loop (map (\<lambda>(r, ch). (r\<lparr>exec_ok := False\<rparr>, ch)) (typed ?rT ?txt))
      init_world = main_loop (typed ?rT ?txt) init_world"
    by blast
  from c1 e c3 show ?thesis by blast
qed

end
